theory Spec2Isabelle
  imports Complex_Main "HOL-Library.Multiset" "HOL-Library.Product_Lexorder"
begin

section \<open>JavaScript values\<close>

text \<open>
  A Number is a finite value, one of the two infinities, or NaN. Finite values are real
  numbers; the rounding of an arithmetic result to binary64 is the platform's \<open>rnd\<close>
  below, so that every statement holds for any rounding. The sign of a zero is not
  modelled: \<open>Fin 0\<close> stands for both zeros.
\<close>

datatype jsnum = Fin real | PInf | NInf | NaN

datatype error = TypeError | RangeError | EmbedError

text \<open>
  The values that reach the index: what \<^verbatim>\<open>JSON.parse\<close> produces, \<^verbatim>\<open>undefined\<close>, and a
  \<^verbatim>\<open>Float32Array\<close> (\<open>JF32\<close>). An object is the list of its own properties, read with
  \<open>map_of\<close>. Strings are lists of code units below 256 (Latin-1).
\<close>

datatype jsval =
    JUndefined
  | JNull
  | JBool bool
  | JNum jsnum
  | JStr string
  | JArr "jsval list"
  | JObj "(string \<times> jsval) list"
  | JF32 "jsnum list"

text \<open>
  What the program takes from the JavaScript engine without defining it:
  \<^item> \<open>rnd x\<close>: the Number that an arithmetic operation returns when its exact result is
    the real \<open>x\<close> (binary64 rounding, an infinity on overflow);
  \<^item> \<open>fround n\<close>: the Number read back from a \<^verbatim>\<open>Float32Array\<close> slot after \<open>n\<close> was stored
    in it (binary32 rounding);
  \<^item> \<open>coerce v\<close>: \<^verbatim>\<open>ToNumber\<close> of a string, an array or an object;
  \<^item> \<open>from_object kvs\<close>: \<^verbatim>\<open>Float32Array.from\<close> of a plain object (its array-like reading,
    which depends on a \<^verbatim>\<open>length\<close> property and on allocation limits).
\<close>

record platform =
  rnd :: "real \<Rightarrow> jsnum"
  fround :: "jsnum \<Rightarrow> jsnum"
  coerce :: "jsval \<Rightarrow> jsnum"
  from_object :: "(string \<times> jsval) list \<Rightarrow> error + jsnum list"

text \<open>
  A platform that rounds nothing. The closed examples below use it on numbers that binary32
  and binary64 represent exactly (0, 1, 2, 3, 4 and 5) and on arrays of numbers, where no
  rounding and no coercion takes place.
\<close>

definition exact_platform :: platform where
  "exact_platform =
     \<lparr>rnd = Fin, fround = (\<lambda>n. n), coerce = (\<lambda>v. NaN), from_object = (\<lambda>kvs. Inr [])\<rparr>"

subsection \<open>Number arithmetic\<close>

fun js_neg :: "jsnum \<Rightarrow> jsnum" where
  "js_neg (Fin a) = Fin (- a)"
| "js_neg PInf = NInf"
| "js_neg NInf = PInf"
| "js_neg NaN = NaN"

fun js_add :: "platform \<Rightarrow> jsnum \<Rightarrow> jsnum \<Rightarrow> jsnum" where
  "js_add P NaN y = NaN"
| "js_add P x NaN = NaN"
| "js_add P (Fin a) (Fin b) = (if a + b = 0 then Fin 0 else rnd P (a + b))"
| "js_add P (Fin a) PInf = PInf"
| "js_add P (Fin a) NInf = NInf"
| "js_add P PInf (Fin b) = PInf"
| "js_add P NInf (Fin b) = NInf"
| "js_add P PInf PInf = PInf"
| "js_add P PInf NInf = NaN"
| "js_add P NInf PInf = NaN"
| "js_add P NInf NInf = NInf"

definition js_sub :: "platform \<Rightarrow> jsnum \<Rightarrow> jsnum \<Rightarrow> jsnum" where
  "js_sub P x y = js_add P x (js_neg y)"

fun js_mul :: "platform \<Rightarrow> jsnum \<Rightarrow> jsnum \<Rightarrow> jsnum" where
  "js_mul P NaN y = NaN"
| "js_mul P x NaN = NaN"
| "js_mul P (Fin a) (Fin b) = (if a = 0 \<or> b = 0 then Fin 0 else rnd P (a * b))"
| "js_mul P (Fin a) PInf = (if a = 0 then NaN else if 0 < a then PInf else NInf)"
| "js_mul P (Fin a) NInf = (if a = 0 then NaN else if 0 < a then NInf else PInf)"
| "js_mul P PInf (Fin b) = (if b = 0 then NaN else if 0 < b then PInf else NInf)"
| "js_mul P NInf (Fin b) = (if b = 0 then NaN else if 0 < b then NInf else PInf)"
| "js_mul P PInf PInf = PInf"
| "js_mul P PInf NInf = NInf"
| "js_mul P NInf PInf = NInf"
| "js_mul P NInf NInf = PInf"

text \<open>
  A zero divisor is read as \<open>+0\<close>: where the divisor is \<open>-0\<close> the engine returns the
  infinity of the other sign. The statements about a division by zero name both
  infinities, and the closed examples divide by \<open>+0\<close> only.
\<close>

fun js_div :: "platform \<Rightarrow> jsnum \<Rightarrow> jsnum \<Rightarrow> jsnum" where
  "js_div P NaN y = NaN"
| "js_div P x NaN = NaN"
| "js_div P (Fin a) (Fin b) =
     (if b = 0 then (if a = 0 then NaN else if 0 < a then PInf else NInf)
      else if a = 0 then Fin 0
      else rnd P (a / b))"
| "js_div P (Fin a) PInf = Fin 0"
| "js_div P (Fin a) NInf = Fin 0"
| "js_div P PInf (Fin b) = (if 0 \<le> b then PInf else NInf)"
| "js_div P NInf (Fin b) = (if 0 \<le> b then NInf else PInf)"
| "js_div P PInf PInf = NaN"
| "js_div P PInf NInf = NaN"
| "js_div P NInf PInf = NaN"
| "js_div P NInf NInf = NaN"

text \<open>\<open>x > 0\<close> and \<open>x \<ge> y\<close> on Numbers; every comparison with NaN is false.\<close>

fun is_pos :: "jsnum \<Rightarrow> bool" where
  "is_pos (Fin a) = (0 < a)"
| "is_pos PInf = True"
| "is_pos NInf = False"
| "is_pos NaN = False"

fun js_ge :: "jsnum \<Rightarrow> jsnum \<Rightarrow> bool" where
  "js_ge NaN y = False"
| "js_ge x NaN = False"
| "js_ge PInf y = True"
| "js_ge x NInf = True"
| "js_ge (Fin a) (Fin b) = (b \<le> a)"
| "js_ge (Fin a) PInf = False"
| "js_ge NInf (Fin b) = False"
| "js_ge NInf PInf = False"

fun the_real :: "jsnum \<Rightarrow> real" where
  "the_real (Fin a) = a"
| "the_real PInf = 0"
| "the_real NInf = 0"
| "the_real NaN = 0"

text \<open>
  \<^verbatim>\<open>Math.hypot(...xs)\<close> as ECMAScript defines it: an infinite argument gives \<open>+Infinity\<close>,
  else a NaN argument gives NaN, else only zeros (or no argument) give \<open>+0\<close>, else the
  Number for the square root of the sum of the squares.
\<close>

definition math_hypot :: "platform \<Rightarrow> jsnum list \<Rightarrow> jsnum" where
  "math_hypot P xs =
     (if PInf \<in> set xs \<or> NInf \<in> set xs then PInf
      else if NaN \<in> set xs then NaN
      else if list_all (\<lambda>x. x = Fin 0) xs then Fin 0
      else rnd P (sqrt (\<Sum>x\<leftarrow>xs. (the_real x)\<^sup>2)))"

subsection \<open>Conversions\<close>

text \<open>\<^verbatim>\<open>ToNumber\<close>.\<close>

fun to_number :: "platform \<Rightarrow> jsval \<Rightarrow> jsnum" where
  "to_number P JUndefined = NaN"
| "to_number P JNull = Fin 0"
| "to_number P (JBool b) = (if b then Fin 1 else Fin 0)"
| "to_number P (JNum n) = n"
| "to_number P v = coerce P v"

text \<open>
  \<^verbatim>\<open>Float32Array.from(source)\<close>: \<^verbatim>\<open>undefined\<close> and \<^verbatim>\<open>null\<close> raise a TypeError; a boolean or a
  number has neither an iterator nor a length and gives the empty array; a string is
  iterated character by character; an array element is converted with \<^verbatim>\<open>ToNumber\<close> and
  stored as binary32.
\<close>

fun float32_from :: "platform \<Rightarrow> jsval \<Rightarrow> error + jsnum list" where
  "float32_from P JUndefined = Inl TypeError"
| "float32_from P JNull = Inl TypeError"
| "float32_from P (JBool b) = Inr []"
| "float32_from P (JNum n) = Inr []"
| "float32_from P (JStr s) = Inr (map (\<lambda>c. fround P (to_number P (JStr [c]))) s)"
| "float32_from P (JArr xs) = Inr (map (\<lambda>v. fround P (to_number P v)) xs)"
| "float32_from P (JObj kvs) = from_object P kvs"
| "float32_from P (JF32 xs) = Inr (map (fround P) xs)"

text \<open>Reading an own property of an object: \<^verbatim>\<open>undefined\<close> when it is absent.\<close>

definition obj_get :: "(string \<times> jsval) list \<Rightarrow> string \<Rightarrow> jsval" where
  "obj_get kvs k = (case map_of kvs k of None \<Rightarrow> JUndefined | Some v \<Rightarrow> v)"

section \<open>The index: vector_search.js\<close>

text \<open>
  An element of \<^verbatim>\<open>this.docs\<close> is an object \<^verbatim>\<open>{ id, vector, norm, ...rest }\<close> whose
  \<^verbatim>\<open>vector\<close> is a \<^verbatim>\<open>Float32Array\<close>; \<open>e_rest\<close> holds its other properties. A method that
  throws returns \<open>Inl\<close>; the entries pushed before the throw are then not represented.
\<close>

record entry =
  e_id :: jsval
  e_vector :: "jsnum list"
  e_norm :: jsval
  e_rest :: "(string \<times> jsval) list"

type_synonym index = "entry list"

text \<open>
  \<^verbatim>\<open>
  add(id, vector) {
    const vec = Float32Array.from(vector);
    const norm = Math.hypot(...vec);
    this.docs.push({ id, vector: vec, norm });
  }\<close>
\<close>

definition add :: "platform \<Rightarrow> jsval \<Rightarrow> jsval \<Rightarrow> index \<Rightarrow> error + index" where
  "add P ident vector docs =
     (case float32_from P vector of
        Inl e \<Rightarrow> Inl e
      | Inr vec \<Rightarrow>
          Inr (docs @ [\<lparr>e_id = ident, e_vector = vec, e_norm = JNum (math_hypot P vec),
                         e_rest = []\<rparr>]))"

text \<open>
  The rest pattern of \<^verbatim>\<open>({ id, vector, norm, ...rest })\<close>: every other own property.
\<close>

definition rest_of :: "(string \<times> jsval) list \<Rightarrow> (string \<times> jsval) list" where
  "rest_of kvs = filter (\<lambda>(k, v). k \<noteq> ''id'' \<and> k \<noteq> ''vector'' \<and> k \<noteq> ''norm'') kvs"

text \<open>
  The callback of \<^verbatim>\<open>docs.forEach\<close> in \<^verbatim>\<open>loadDocs\<close>, on one element. Destructuring
  \<^verbatim>\<open>undefined\<close> or \<^verbatim>\<open>null\<close> raises a TypeError; any other value that is not an object has no
  \<^verbatim>\<open>vector\<close> property, and \<^verbatim>\<open>Float32Array.from(undefined)\<close> raises a TypeError.
\<close>

fun load_one :: "platform \<Rightarrow> jsval \<Rightarrow> index \<Rightarrow> error + index" where
  "load_one P (JObj kvs) docs =
     (case float32_from P (obj_get kvs ''vector'') of
        Inl e \<Rightarrow> Inl e
      | Inr vec \<Rightarrow>
          Inr (docs @ [\<lparr>e_id = obj_get kvs ''id'', e_vector = vec,
                         e_norm = obj_get kvs ''norm'', e_rest = rest_of kvs\<rparr>]))"
| "load_one P d docs = Inl TypeError"

fun load_each :: "platform \<Rightarrow> jsval list \<Rightarrow> index \<Rightarrow> error + index" where
  "load_each P [] docs = Inr docs"
| "load_each P (d # ds) docs =
     (case load_one P d docs of Inl e \<Rightarrow> Inl e | Inr docs' \<Rightarrow> load_each P ds docs')"

text \<open>
  \<^verbatim>\<open>
  loadDocs(docs) {
    if (!Array.isArray(docs)) { throw new TypeError("...") }
    docs.forEach(({ id, vector, norm, ...rest }) => {
      const vec = Float32Array.from(vector);
      this.docs.push({ id, vector: vec, norm, ...rest });
    });
  }\<close>
\<close>

fun loadDocs :: "platform \<Rightarrow> jsval \<Rightarrow> index \<Rightarrow> error + index" where
  "loadDocs P (JArr ds) docs = load_each P ds docs"
| "loadDocs P v docs = Inl TypeError"

subsection \<open>search\<close>

text \<open>
  \<^verbatim>\<open>vector[i]\<close> as an operand of \<^verbatim>\<open>*\<close>: beyond the end of the \<^verbatim>\<open>Float32Array\<close> the read is
  \<^verbatim>\<open>undefined\<close>, which \<^verbatim>\<open>ToNumber\<close> turns into NaN.
\<close>

definition f32_get :: "jsnum list \<Rightarrow> nat \<Rightarrow> jsnum" where
  "f32_get v i = (if i < length v then v ! i else NaN)"

text \<open>
  \<^verbatim>\<open>
  let dot = 0;
  for (let i = 0; i < q.length; i++) { dot += q[i] * vector[i]; }\<close>
\<close>

function dot_loop :: "platform \<Rightarrow> jsnum list \<Rightarrow> jsnum list \<Rightarrow> nat \<Rightarrow> jsnum \<Rightarrow> jsnum" where
  "dot_loop P q v i dot =
     (if i < length q
      then dot_loop P q v (Suc i) (js_add P dot (js_mul P (q ! i) (f32_get v i)))
      else dot)"
  by pat_completeness auto
termination
  by (relation "measure (\<lambda>(P, q, v, i, dot). length q - i)") auto

text \<open>The value of \<^verbatim>\<open>dot / (norm * qNorm)\<close> for one stored entry.\<close>

definition cosine :: "platform \<Rightarrow> jsnum list \<Rightarrow> jsnum \<Rightarrow> entry \<Rightarrow> jsnum" where
  "cosine P q qNorm e =
     js_div P (dot_loop P q (e_vector e) 0 (Fin 0))
              (js_mul P (to_number P (e_norm e)) qNorm)"

text \<open>
  The object literal \<^verbatim>\<open>{ id, score: dot / (norm * qNorm), ...rest }\<close>: the properties of
  \<^verbatim>\<open>rest\<close> are written after \<^verbatim>\<open>id\<close> and \<^verbatim>\<open>score\<close>, so a property of \<^verbatim>\<open>rest\<close> named
  \<^verbatim>\<open>score\<close> replaces the computed one.
\<close>

definition obj_set :: "(string \<times> jsval) list \<Rightarrow> string \<times> jsval \<Rightarrow> (string \<times> jsval) list" where
  "obj_set obj kv =
     (if fst kv \<in> fst ` set obj
      then map (\<lambda>(k, v). if k = fst kv then (k, snd kv) else (k, v)) obj
      else obj @ [kv])"

definition obj_spread ::
  "(string \<times> jsval) list \<Rightarrow> (string \<times> jsval) list \<Rightarrow> (string \<times> jsval) list" where
  "obj_spread obj rest = foldl obj_set obj rest"

definition score_entry ::
  "platform \<Rightarrow> jsnum list \<Rightarrow> jsnum \<Rightarrow> entry \<Rightarrow> (string \<times> jsval) list" where
  "score_entry P q qNorm e =
     obj_spread [(''id'', e_id e), (''score'', JNum (cosine P q qNorm e))] (rest_of (e_rest e))"

text \<open>
  \<^verbatim>\<open>Array.prototype.sort(comparefn)\<close> is a stable sort; an element \<open>x\<close> goes after \<open>y\<close> when
  \<open>comparefn(x, y) > 0\<close>, and a NaN result counts as \<open>+0\<close>. It is modelled by a stable
  insertion sort. When the comparator is consistent every conforming engine returns the
  same array; when it is not (some score is NaN) ECMAScript leaves the order to the
  engine, and the model gives the order of the insertion sort.
\<close>

fun insert_by :: "('a \<Rightarrow> 'a \<Rightarrow> jsnum) \<Rightarrow> 'a \<Rightarrow> 'a list \<Rightarrow> 'a list" where
  "insert_by cmp x [] = [x]"
| "insert_by cmp x (y # ys) =
     (if is_pos (cmp x y) then y # insert_by cmp x ys else x # y # ys)"

definition array_sort :: "('a \<Rightarrow> 'a \<Rightarrow> jsnum) \<Rightarrow> 'a list \<Rightarrow> 'a list" where
  "array_sort cmp xs = foldr (insert_by cmp) xs []"

text \<open>The score read from a result object, as an operand of \<^verbatim>\<open>-\<close>.\<close>

definition score_of :: "platform \<Rightarrow> (string \<times> jsval) list \<Rightarrow> jsnum" where
  "score_of P r = to_number P (obj_get r ''score'')"

text \<open>The comparator \<^verbatim>\<open>(a, b) => b.score - a.score\<close>.\<close>

definition score_cmp ::
  "platform \<Rightarrow> (string \<times> jsval) list \<Rightarrow> (string \<times> jsval) list \<Rightarrow> jsnum" where
  "score_cmp P a b = js_sub P (score_of P b) (score_of P a)"

text \<open>
  \<^verbatim>\<open>Array.prototype.slice(start, end)\<close> with integer arguments: a negative argument counts
  from the end of the array.
\<close>

definition array_slice :: "'a list \<Rightarrow> int \<Rightarrow> int \<Rightarrow> 'a list" where
  "array_slice xs start fin =
     (let len = int (length xs);
          k = (if start < 0 then max (len + start) 0 else min start len);
          final = (if fin < 0 then max (len + fin) 0 else min fin len)
      in take (nat (final - k)) (drop (nat k) xs))"

text \<open>
  \<^verbatim>\<open>
  search(queryVec, k = 10) {
    const q = Float32Array.from(queryVec);
    const qNorm = Math.hypot(...q);
    return this.docs
      .map(({ id, vector, norm, ...rest }) => { ... })
      .sort((a, b) => b.score - a.score)
      .slice(0, k);
  }\<close>
  \<open>k\<close> is an integer.
\<close>

definition search ::
  "platform \<Rightarrow> index \<Rightarrow> jsval \<Rightarrow> int \<Rightarrow> error + (string \<times> jsval) list list" where
  "search P docs queryVec k =
     (case float32_from P queryVec of
        Inl e \<Rightarrow> Inl e
      | Inr q \<Rightarrow>
          let qNorm = math_hypot P q
          in Inr (array_slice
                    (array_sort (score_cmp P) (map (score_entry P q qNorm) docs)) 0 k))"

subsection \<open>textSearch\<close>

text \<open>
  \<^verbatim>\<open>String.prototype.trim\<close> and \<^verbatim>\<open>toLowerCase\<close> on Latin-1 strings: the white space and
  line terminators below 256 are the code units 9 to 13, 32 and 160; the letters with a
  lower-case form are A to Z and the code units 192 to 222 except 215.
\<close>

definition is_ws :: "char \<Rightarrow> bool" where
  "is_ws c = ((of_char c :: nat) \<in> {9, 10, 11, 12, 13, 32, 160})"

definition trim :: "string \<Rightarrow> string" where
  "trim s = rev (dropWhile is_ws (rev (dropWhile is_ws s)))"

definition lower_char :: "char \<Rightarrow> char" where
  "lower_char c =
     (let n = (of_char c :: nat)
      in if (65 \<le> n \<and> n \<le> 90) \<or> (192 \<le> n \<and> n \<le> 222 \<and> n \<noteq> 215)
         then char_of (n + 32) else c)"

definition toLowerCase :: "string \<Rightarrow> string" where
  "toLowerCase s = map lower_char s"

text \<open>\<^verbatim>\<open>doc?.[attr]\<close> on a stored entry.\<close>

definition entry_get :: "entry \<Rightarrow> string \<Rightarrow> jsval" where
  "entry_get e attr =
     (if attr = ''id'' then e_id e
      else if attr = ''vector'' then JF32 (e_vector e)
      else if attr = ''norm'' then e_norm e
      else obj_get (e_rest e) attr)"

text \<open>
  \<^verbatim>\<open>
  for (const doc of this.docs) {
    const value = doc?.[attr];
    if (typeof value === 'string' && value.trim().toLowerCase() === loweredText) {
      return doc;
    }
  }
  return null;\<close>
\<close>

fun text_scan :: "string \<Rightarrow> string \<Rightarrow> entry list \<Rightarrow> entry option" where
  "text_scan loweredText attr [] = None"
| "text_scan loweredText attr (doc # docs) =
     (case entry_get doc attr of
        JStr v \<Rightarrow>
          if toLowerCase (trim v) = loweredText then Some doc
          else text_scan loweredText attr docs
      | _ \<Rightarrow> text_scan loweredText attr docs)"

text \<open>
  \<^verbatim>\<open>textSearch(text, attr = 'header')\<close>: \<open>None\<close> for \<open>attr\<close> is the omitted argument, and
  \<open>None\<close> as a result is \<^verbatim>\<open>null\<close>.
\<close>

definition textSearch :: "jsval \<Rightarrow> string option \<Rightarrow> index \<Rightarrow> entry option" where
  "textSearch text attr docs =
     (case text of
        JStr s \<Rightarrow>
          text_scan (toLowerCase (trim s)) (case attr of None \<Rightarrow> ''header'' | Some a \<Rightarrow> a) docs
      | _ \<Rightarrow> None)"

section \<open>The indexing loop: app.js\<close>

text \<open>
  Reading a property \<^verbatim>\<open>d.name\<close>, for the names the program reads (\<^verbatim>\<open>vector\<close>,
  \<^verbatim>\<open>text_block\<close>, \<^verbatim>\<open>header\<close>): a TypeError on \<^verbatim>\<open>undefined\<close> and \<^verbatim>\<open>null\<close>, \<^verbatim>\<open>undefined\<close> on a
  value that is not an object.
\<close>

fun get_prop :: "jsval \<Rightarrow> string \<Rightarrow> error + jsval" where
  "get_prop JUndefined k = Inl TypeError"
| "get_prop JNull k = Inl TypeError"
| "get_prop (JObj kvs) k = Inr (obj_get kvs k)"
| "get_prop v k = Inr JUndefined"

fun truthy :: "jsval \<Rightarrow> bool" where
  "truthy JUndefined = False"
| "truthy JNull = False"
| "truthy (JBool b) = b"
| "truthy (JNum n) = (n \<noteq> NaN \<and> n \<noteq> Fin 0)"
| "truthy (JStr s) = (s \<noteq> [])"
| "truthy v = True"

text \<open>\<^verbatim>\<open>xs[j]\<close> on an array: \<^verbatim>\<open>undefined\<close> beyond its end.\<close>

definition arr_get :: "jsval list \<Rightarrow> nat \<Rightarrow> jsval" where
  "arr_get xs j = (if j < length xs then xs ! j else JUndefined)"

text \<open>\<^verbatim>\<open>chunk.map((d) => d.text_block)\<close>: the first element that throws ends the map.\<close>

fun map_texts :: "jsval list \<Rightarrow> error + jsval list" where
  "map_texts [] = Inr []"
| "map_texts (d # ds) =
     (case get_prop d ''text_block'' of
        Inl e \<Rightarrow> Inl e
      | Inr t \<Rightarrow> (case map_texts ds of Inl e \<Rightarrow> Inl e | Inr ts \<Rightarrow> Inr (t # ts)))"

text \<open>
  \<^verbatim>\<open>
  for (let j = 0; j < chunk.length; j++) {
    index.add(chunk[j].header, embeddings[j]);
    ...
  }\<close>
\<close>

function add_loop ::
  "platform \<Rightarrow> jsval list \<Rightarrow> jsval list \<Rightarrow> nat \<Rightarrow> index \<Rightarrow> error + index" where
  "add_loop P chunk embeddings j docs =
     (if j < length chunk
      then (case get_prop (chunk ! j) ''header'' of
              Inl e \<Rightarrow> Inl e
            | Inr h \<Rightarrow>
                (case add P h (arr_get embeddings j) docs of
                   Inl e \<Rightarrow> Inl e
                 | Inr docs' \<Rightarrow> add_loop P chunk embeddings (Suc j) docs'))
      else Inr docs)"
  by pat_completeness auto
termination
  by (relation "measure (\<lambda>(P, chunk, embeddings, j, docs). length chunk - j)") auto

text \<open>
  The embedding gateway \<^verbatim>\<open>embedBatch\<close> is a parameter: it maps the texts of one batch to
  an array of vectors or fails. The state of the loop is the index and, to count the
  calls, the list of the arguments \<^verbatim>\<open>embedBatch\<close> was called with. The progress counter and
  the console output are not modelled.
\<close>

type_synonym embedder = "jsval list \<Rightarrow> error + jsval list"

definition batch_step ::
  "platform \<Rightarrow> embedder \<Rightarrow> jsval list \<Rightarrow> index \<times> jsval list list
     \<Rightarrow> error + index \<times> jsval list list" where
  "batch_step P embedBatch chunk st =
     (case map_texts chunk of
        Inl e \<Rightarrow> Inl e
      | Inr texts \<Rightarrow>
          (case embedBatch texts of
             Inl e \<Rightarrow> Inl e
           | Inr embeddings \<Rightarrow>
               (case add_loop P chunk embeddings 0 (fst st) of
                  Inl e \<Rightarrow> Inl e
                | Inr docs' \<Rightarrow> Inr (docs', snd st @ [texts]))))"

text \<open>
  \<^verbatim>\<open>
  for (let i = 0; i < total; i += BATCH_SIZE) {
    const chunk = docs.slice(i, i + BATCH_SIZE);
    const texts = chunk.map((d) => d.text_block);
    const embeddings = await embedBatch(texts);
    for (let j = 0; j < chunk.length; j++) { ... }
  }\<close>
  \<^verbatim>\<open>BATCH_SIZE\<close> is 32 in the source and a parameter here. The loop does not end when it is
  0, so the result is an option: \<open>None\<close> is the loop that runs forever.
\<close>

partial_function (option) index_loop ::
  "platform \<Rightarrow> embedder \<Rightarrow> nat \<Rightarrow> jsval list \<Rightarrow> nat \<Rightarrow> index \<times> jsval list list
     \<Rightarrow> (error + index \<times> jsval list list) option" where
  "index_loop P embedBatch BATCH_SIZE docs i st =
     (if i < length docs
      then (case batch_step P embedBatch
                   (array_slice docs (int i) (int i + int BATCH_SIZE)) st of
              Inl e \<Rightarrow> Some (Inl e)
            | Inr st' \<Rightarrow> index_loop P embedBatch BATCH_SIZE docs (i + BATCH_SIZE) st')
      else Some (Inr st))"

text \<open>
  The branch of the main function on \<^verbatim>\<open>docs[0]["vector"]\<close>, for an array \<open>docs\<close> and a new
  index: reading \<^verbatim>\<open>docs[0]\<close> of an empty array gives \<^verbatim>\<open>undefined\<close>, whose property read
  raises a TypeError.
\<close>

definition build_index ::
  "platform \<Rightarrow> embedder \<Rightarrow> nat \<Rightarrow> jsval list \<Rightarrow> (error + index \<times> jsval list list) option" where
  "build_index P embedBatch BATCH_SIZE docs =
     (case get_prop (arr_get docs 0) ''vector'' of
        Inl e \<Rightarrow> Some (Inl e)
      | Inr v \<Rightarrow>
          if truthy v
          then (case loadDocs P (JArr docs) [] of
                  Inl e \<Rightarrow> Some (Inl e)
                | Inr idx \<Rightarrow> Some (Inr (idx, [])))
          else index_loop P embedBatch BATCH_SIZE docs 0 ([], []))"

section \<open>Notions used in the statements\<close>

fun is_fin :: "jsnum \<Rightarrow> bool" where
  "is_fin (Fin a) = True"
| "is_fin x = False"

text \<open>The Euclidean norm of a vector of finite components, as a real number.\<close>

definition euclidean_norm :: "jsnum list \<Rightarrow> real" where
  "euclidean_norm xs = sqrt (\<Sum>x\<leftarrow>xs. (the_real x)\<^sup>2)"

text \<open>
  The property \<open>k\<close> of a value and the list of its own properties; a value that is not an
  object has none.
\<close>

definition field :: "jsval \<Rightarrow> string \<Rightarrow> jsval" where
  "field d k = (case d of JObj kvs \<Rightarrow> obj_get kvs k | _ \<Rightarrow> JUndefined)"

definition props :: "jsval \<Rightarrow> (string \<times> jsval) list" where
  "props d = (case d of JObj kvs \<Rightarrow> kvs | _ \<Rightarrow> [])"

fun is_array :: "jsval \<Rightarrow> bool" where
  "is_array (JArr xs) = True"
| "is_array v = False"

fun is_vector :: "jsval \<Rightarrow> bool" where
  "is_vector (JArr xs) = True"
| "is_vector (JF32 xs) = True"
| "is_vector v = False"

fun vec_length :: "jsval \<Rightarrow> nat" where
  "vec_length (JArr xs) = length xs"
| "vec_length (JF32 xs) = length xs"
| "vec_length v = 0"

text \<open>The array that \<^verbatim>\<open>Float32Array.from\<close> returns, when it returns one.\<close>

definition the_vec :: "platform \<Rightarrow> jsval \<Rightarrow> jsnum list" where
  "the_vec P v = (case float32_from P v of Inr vec \<Rightarrow> vec | Inl e \<Rightarrow> [])"

text \<open>The entry that \<open>loadDocs\<close> stores for an element whose \<^verbatim>\<open>vector\<close> converts.\<close>

definition loaded_entry :: "platform \<Rightarrow> jsval \<Rightarrow> entry" where
  "loaded_entry P d =
     \<lparr>e_id = field d ''id'', e_vector = the_vec P (field d ''vector''),
      e_norm = field d ''norm'', e_rest = rest_of (props d)\<rparr>"

text \<open>
  Two strings are the same text when they are equal once leading and trailing white space
  is removed and letters are put in lower case; an entry matches when its property \<open>attr\<close>
  is a string that is the same text as the one searched.
\<close>

definition same_text :: "string \<Rightarrow> string \<Rightarrow> bool" where
  "same_text a b = (toLowerCase (trim a) = toLowerCase (trim b))"

definition attr_matches :: "string \<Rightarrow> string \<Rightarrow> entry \<Rightarrow> bool" where
  "attr_matches text attr e =
     (case entry_get e attr of JStr v \<Rightarrow> same_text v text | _ \<Rightarrow> False)"

text \<open>
  The subtraction of two distinct finite Numbers of \<open>ss\<close> has the sign of the exact
  difference. Binary64 has this property for all its values: a difference of two distinct
  doubles is never rounded to zero.
\<close>

definition rounding_keeps_sign :: "platform \<Rightarrow> jsnum list \<Rightarrow> bool" where
  "rounding_keeps_sign P ss =
     (\<forall>a b. Fin a \<in> set ss \<and> Fin b \<in> set ss \<and> a \<noteq> b \<longrightarrow> is_pos (rnd P (b - a)) = (a < b))"

text \<open>A key that orders the Numbers other than NaN from the greatest to the least.\<close>

fun desc_key :: "jsnum \<Rightarrow> nat \<times> real" where
  "desc_key PInf = (0, 0)"
| "desc_key (Fin a) = (1, - a)"
| "desc_key NInf = (2, 0)"
| "desc_key NaN = (3, 0)"

text \<open>The consecutive batches of at most \<open>n\<close> elements of a list.\<close>

function chunks :: "nat \<Rightarrow> 'a list \<Rightarrow> 'a list list" where
  "chunks n xs = (if n = 0 \<or> xs = [] then [] else take n xs # chunks n (drop n xs))"
  by pat_completeness auto
termination
  by (relation "measure (\<lambda>(n, xs). length xs)") auto

declare chunks.simps [simp del]

text \<open>
  The entry that \<open>add\<close> stores for the document \<open>d\<close> and the vector \<open>v\<close> its text was
  embedded to, and the entries of one batch: the documents of the batch paired, in order,
  with the vectors that the embedder returns for their \<^verbatim>\<open>text_block\<close> values.
\<close>

definition embedded_entry :: "platform \<Rightarrow> jsval \<Rightarrow> jsval \<Rightarrow> entry" where
  "embedded_entry P d v =
     \<lparr>e_id = field d ''header'', e_vector = the_vec P v,
      e_norm = JNum (math_hypot P (the_vec P v)), e_rest = []\<rparr>"

definition batch_entries :: "platform \<Rightarrow> embedder \<Rightarrow> jsval list \<Rightarrow> entry list" where
  "batch_entries P embedBatch chunk =
     (case embedBatch (map (\<lambda>d. field d ''text_block'') chunk) of
        Inl e \<Rightarrow> []
      | Inr embeddings \<Rightarrow> map2 (embedded_entry P) chunk embeddings)"

text \<open>
  A document is a value with properties (not \<^verbatim>\<open>undefined\<close> or \<^verbatim>\<open>null\<close>). The contract of the
  embedding gateway: one vector per text, in an array of the same length.
\<close>

definition is_document :: "jsval \<Rightarrow> bool" where
  "is_document d = (d \<noteq> JUndefined \<and> d \<noteq> JNull)"

definition embeds_each :: "embedder \<Rightarrow> bool" where
  "embeds_each embedBatch =
     (\<forall>texts. \<exists>vs. embedBatch texts = Inr vs \<and> length vs = length texts \<and> list_all is_vector vs)"

text \<open>An embedder for the examples: every text becomes the vector \<open>[1, 0]\<close>.\<close>

definition unit_embedder :: embedder where
  "unit_embedder texts = Inr (map (\<lambda>t. JArr [JNum (Fin 1), JNum (Fin 0)]) texts)"

text \<open>
  The embeddable text as C8 words it: the concatenation of \<^verbatim>\<open>text_blocks\<close> when that is a
  list, the \<^verbatim>\<open>text_block\<close> otherwise. It is compared with what the loop passes to the
  embedder.
\<close>

fun str_of :: "jsval \<Rightarrow> string" where
  "str_of (JStr s) = s"
| "str_of v = []"

definition claimed_text :: "jsval \<Rightarrow> jsval" where
  "claimed_text d =
     (case field d ''text_blocks'' of
        JArr blocks \<Rightarrow> JStr (concat (map str_of blocks))
      | _ \<Rightarrow> field d ''text_block'')"

section \<open>Properties\<close>

subsection \<open>Math.hypot\<close>

lemma sum_squares_nonneg: "0 \<le> (\<Sum>x\<leftarrow>xs. (the_real x)\<^sup>2)"
  by (induction xs) auto

lemma sum_squares_zero_iff:
  "list_all is_fin xs \<Longrightarrow> ((\<Sum>x\<leftarrow>xs. (the_real x)\<^sup>2) = 0) = list_all (\<lambda>x. x = Fin 0) xs"
proof (induction xs)
  case Nil
  then show ?case by simp
next
  case (Cons x xs)
  obtain a where x: "x = Fin a" using Cons.prems by (cases x) auto
  have nn: "0 \<le> (\<Sum>x\<leftarrow>xs. (the_real x)\<^sup>2)" by (rule sum_squares_nonneg)
  have "(a\<^sup>2 + (\<Sum>x\<leftarrow>xs. (the_real x)\<^sup>2) = 0) = (a = 0 \<and> (\<Sum>x\<leftarrow>xs. (the_real x)\<^sup>2) = 0)"
    using nn by (simp add: add_nonneg_eq_0_iff)
  then show ?case using Cons x by simp
qed

lemma is_fin_no_special:
  "list_all is_fin xs \<Longrightarrow> PInf \<notin> set xs \<and> NInf \<notin> set xs \<and> NaN \<notin> set xs"
  by (induction xs) auto

lemma math_hypot_finite:
  assumes "list_all is_fin xs"
  shows "math_hypot P xs =
           (if euclidean_norm xs = 0 then Fin 0 else rnd P (euclidean_norm xs))"
  using is_fin_no_special[OF assms] sum_squares_zero_iff[OF assms]
  by (simp add: math_hypot_def euclidean_norm_def)

lemma sqrt_25: "sqrt 25 = 5"
  by (rule real_sqrt_unique) simp_all

subsection \<open>add\<close>

text \<open>
  C5. For every id and every vector that \<^verbatim>\<open>Float32Array.from\<close> accepts, \<open>add\<close> appends
  exactly one entry: it holds the id, the converted vector and, as its norm,
  \<^verbatim>\<open>Math.hypot\<close> of the stored (converted) vector. When the stored components are finite
  that norm is the Euclidean norm \<open>sqrt (\<Sum> v\<^sub>i\<^sup>2)\<close> of the stored vector up to the
  platform's rounding \<open>rnd\<close> (and exactly 0 for a zero or empty vector).
\<close>

theorem add_appends_entry_with_l2_norm:
  assumes "float32_from P vector = Inr vec"
  shows "add P ident vector docs =
           Inr (docs @ [\<lparr>e_id = ident, e_vector = vec, e_norm = JNum (math_hypot P vec),
                          e_rest = []\<rparr>])
         \<and> (list_all is_fin vec \<longrightarrow>
              math_hypot P vec =
                (if euclidean_norm vec = 0 then Fin 0 else rnd P (euclidean_norm vec)))"
  using assms math_hypot_finite[of vec P] by (simp add: add_def)

theorem add_appends_entry_with_l2_norm_witness:
  "float32_from exact_platform (JArr [JNum (Fin 3), JNum (Fin 4)]) = Inr [Fin 3, Fin 4]
   \<and> add exact_platform (JStr ''a'') (JArr [JNum (Fin 3), JNum (Fin 4)]) [] =
       Inr [\<lparr>e_id = JStr ''a'', e_vector = [Fin 3, Fin 4], e_norm = JNum (Fin 5), e_rest = []\<rparr>]
   \<and> euclidean_norm [Fin 3, Fin 4] = 5"
proof -
  have h: "float32_from exact_platform (JArr [JNum (Fin 3), JNum (Fin 4)]) = Inr [Fin 3, Fin 4]"
    by (simp add: exact_platform_def)
  have e: "euclidean_norm [Fin 3, Fin 4] = 5"
    by (simp add: euclidean_norm_def sqrt_25)
  show ?thesis
    using add_appends_entry_with_l2_norm[OF h, of "JStr ''a''" "[]"] h e
    by (simp add: exact_platform_def)
qed

subsection \<open>loadDocs\<close>

lemma float32_from_vector:
  "is_vector v \<Longrightarrow> float32_from P v = Inr (the_vec P v) \<and> length (the_vec P v) = vec_length v"
  by (cases v) (simp_all add: the_vec_def)

lemma load_one_well_formed:
  assumes "is_vector (field d ''vector'')"
  shows "load_one P d docs = Inr (docs @ [loaded_entry P d])"
proof (cases d)
  case (JObj kvs)
  with assms float32_from_vector[of "obj_get kvs ''vector''" P] show ?thesis
    by (simp add: field_def props_def loaded_entry_def)
qed (use assms in \<open>simp_all add: field_def\<close>)

lemma load_one_no_vector:
  assumes "field d ''vector'' = JUndefined \<or> field d ''vector'' = JNull"
  shows "load_one P d docs = Inl TypeError"
  using assms by (cases d) (auto simp: field_def)

lemma load_each_well_formed:
  "list_all (\<lambda>d. is_vector (field d ''vector'')) ds \<Longrightarrow>
   load_each P ds docs = Inr (docs @ map (loaded_entry P) ds)"
  by (induction ds arbitrary: docs) (simp_all add: load_one_well_formed)

lemma load_each_fails:
  "d \<in> set ds \<Longrightarrow> load_one P d = (\<lambda>docs. Inl TypeError) \<Longrightarrow> \<exists>e. load_each P ds docs = Inl e"
  by (induction ds arbitrary: docs) (auto split: sum.splits)

text \<open>
  C6, as the code has it. \<open>loadDocs\<close> raises a TypeError when its argument is not an
  array, and fails when some element is \<^verbatim>\<open>undefined\<close>, \<^verbatim>\<open>null\<close>, not an object, or has no
  \<^verbatim>\<open>vector\<close> (or a \<^verbatim>\<open>null\<close> one). It makes no check of \<^verbatim>\<open>id\<close>. When every element carries an
  array (or \<^verbatim>\<open>Float32Array\<close>) as its \<^verbatim>\<open>vector\<close> it succeeds and appends one entry per
  element, in order: the \<^verbatim>\<open>id\<close> and the \<^verbatim>\<open>norm\<close> are the supplied values, unchanged and not
  recomputed (\<^verbatim>\<open>undefined\<close> when absent), the vector is the supplied one converted to
  binary32, and the other properties are kept.
\<close>

theorem loadDocs_checks_array_and_vector_only:
  "(\<not> is_array v \<longrightarrow> loadDocs P v docs = Inl TypeError)
   \<and> ((\<exists>d\<in>set ds. field d ''vector'' = JUndefined \<or> field d ''vector'' = JNull) \<longrightarrow>
        (\<exists>e. loadDocs P (JArr ds) docs = Inl e))
   \<and> (list_all (\<lambda>d. is_vector (field d ''vector'')) ds \<longrightarrow>
        loadDocs P (JArr ds) docs =
          Inr (docs @ map (\<lambda>d. \<lparr>e_id = field d ''id'',
                                  e_vector = the_vec P (field d ''vector''),
                                  e_norm = field d ''norm'',
                                  e_rest = rest_of (props d)\<rparr>) ds))"
proof (intro conjI impI)
  assume "\<not> is_array v"
  then show "loadDocs P v docs = Inl TypeError" by (cases v) simp_all
next
  assume "\<exists>d\<in>set ds. field d ''vector'' = JUndefined \<or> field d ''vector'' = JNull"
  then obtain d where d: "d \<in> set ds"
    and "field d ''vector'' = JUndefined \<or> field d ''vector'' = JNull" by blast
  then have "load_one P d = (\<lambda>docs. Inl TypeError)"
    by (intro ext load_one_no_vector)
  with d show "\<exists>e. loadDocs P (JArr ds) docs = Inl e"
    by (simp add: load_each_fails)
next
  assume "list_all (\<lambda>d. is_vector (field d ''vector'')) ds"
  then show "loadDocs P (JArr ds) docs =
          Inr (docs @ map (\<lambda>d. \<lparr>e_id = field d ''id'',
                                  e_vector = the_vec P (field d ''vector''),
                                  e_norm = field d ''norm'',
                                  e_rest = rest_of (props d)\<rparr>) ds)"
    using load_each_well_formed[of ds P docs] by (simp add: loaded_entry_def)
qed

theorem loadDocs_checks_array_and_vector_only_witness:
  "loadDocs exact_platform (JNum (Fin 1)) [] = Inl TypeError
   \<and> (\<exists>e. loadDocs exact_platform (JArr [JObj [(''id'', JStr ''a'')]]) [] = Inl e)
   \<and> loadDocs exact_platform
        (JArr [JObj [(''id'', JStr ''a''), (''vector'', JArr [JNum (Fin 1), JNum (Fin 0)]),
                     (''norm'', JNum (Fin 2)), (''header'', JStr ''A'')]]) [] =
        Inr [\<lparr>e_id = JStr ''a'', e_vector = [Fin 1, Fin 0], e_norm = JNum (Fin 2),
               e_rest = [(''header'', JStr ''A'')]\<rparr>]"
  using loadDocs_checks_array_and_vector_only[of "JNum (Fin 1)" exact_platform "[]"
          "[JObj [(''id'', JStr ''a'')]]"]
        loadDocs_checks_array_and_vector_only[of "JNum (Fin 1)" exact_platform "[]"
          "[JObj [(''id'', JStr ''a''), (''vector'', JArr [JNum (Fin 1), JNum (Fin 0)]),
                     (''norm'', JNum (Fin 2)), (''header'', JStr ''A'')]]"]
  by (simp add: field_def props_def obj_get_def the_vec_def rest_of_def exact_platform_def)

text \<open>
  C6 as stated fails: an element without \<^verbatim>\<open>id\<close> is not a well-formed element, and
  \<open>loadDocs\<close> stores it.
\<close>

theorem loadDocs_accepts_missing_id:
  "loadDocs exact_platform (JArr [JObj [(''vector'', JArr [JNum (Fin 1)])]]) [] =
     Inr [\<lparr>e_id = JUndefined, e_vector = [Fin 1], e_norm = JUndefined, e_rest = []\<rparr>]"
  by (simp add: obj_get_def rest_of_def exact_platform_def)

text \<open>
  C7, as the code has it. Neither \<open>add\<close> nor \<open>loadDocs\<close> compares the length of a vector with
  the entries already stored: whatever the index holds, \<open>add\<close> of an array stores a vector
  of the array's length, and \<open>loadDocs\<close> stores, for each element, a vector of the length
  of the element's \<^verbatim>\<open>vector\<close>. Nothing is padded or truncated and nothing is raised.
\<close>

theorem no_dimensionality_check:
  "(\<exists>e. add P ident (JArr xs) docs = Inr (docs @ [e]) \<and> length (e_vector e) = length xs)
   \<and> (list_all (\<lambda>d. is_vector (field d ''vector'')) ds \<longrightarrow>
        (\<exists>new. loadDocs P (JArr ds) docs = Inr (docs @ new)
           \<and> map (\<lambda>e. length (e_vector e)) new = map (\<lambda>d. vec_length (field d ''vector'')) ds))"
proof (intro conjI impI)
  show "\<exists>e. add P ident (JArr xs) docs = Inr (docs @ [e]) \<and> length (e_vector e) = length xs"
    by (simp add: add_def)
next
  assume wf: "list_all (\<lambda>d. is_vector (field d ''vector'')) ds"
  have len: "map (\<lambda>e. length (e_vector e)) (map (loaded_entry P) ds)
               = map (\<lambda>d. vec_length (field d ''vector'')) ds"
    using wf by (induction ds) (simp_all add: loaded_entry_def float32_from_vector)
  show "\<exists>new. loadDocs P (JArr ds) docs = Inr (docs @ new)
           \<and> map (\<lambda>e. length (e_vector e)) new = map (\<lambda>d. vec_length (field d ''vector'')) ds"
    using load_each_well_formed[OF wf, of P docs] len by auto
qed

theorem no_dimensionality_check_witness:
  "\<exists>new. loadDocs exact_platform
        (JArr [JObj [(''id'', JStr ''a''), (''vector'', JArr [JNum (Fin 1), JNum (Fin 0)])],
               JObj [(''id'', JStr ''b''), (''vector'', JArr [JNum (Fin 1)])]]) [] = Inr new
     \<and> map (\<lambda>e. length (e_vector e)) new = [2, 1]"
  using no_dimensionality_check[of exact_platform JNull "[]" "[]"
         "[JObj [(''id'', JStr ''a''), (''vector'', JArr [JNum (Fin 1), JNum (Fin 0)])],
               JObj [(''id'', JStr ''b''), (''vector'', JArr [JNum (Fin 1)])]]"]
  by (simp add: field_def obj_get_def)

text \<open>
  C7 as stated fails: after a vector of dimension 2, \<open>add\<close> stores a vector of dimension 1
  and the index holds both.
\<close>

theorem add_accepts_mismatched_dimension:
  "add exact_platform (JStr ''a'') (JArr [JNum (Fin 1), JNum (Fin 0)]) [] =
     Inr [\<lparr>e_id = JStr ''a'', e_vector = [Fin 1, Fin 0], e_norm = JNum (Fin 1), e_rest = []\<rparr>]
   \<and> add exact_platform (JStr ''b'') (JArr [JNum (Fin 1)])
       [\<lparr>e_id = JStr ''a'', e_vector = [Fin 1, Fin 0], e_norm = JNum (Fin 1), e_rest = []\<rparr>] =
     Inr [\<lparr>e_id = JStr ''a'', e_vector = [Fin 1, Fin 0], e_norm = JNum (Fin 1), e_rest = []\<rparr>,
          \<lparr>e_id = JStr ''b'', e_vector = [Fin 1], e_norm = JNum (Fin 1), e_rest = []\<rparr>]"
  by (simp add: add_def math_hypot_def exact_platform_def)

subsection \<open>search\<close>

declare dot_loop.simps [simp del]

lemma js_add_NaN_right: "js_add P x NaN = NaN"
  by (cases x) simp_all

lemma js_mul_NaN_right: "js_mul P x NaN = NaN"
  by (cases x) simp_all





lemma dot_loop_NaN: "dot_loop P q v i NaN = NaN"
proof (induction P q v i "NaN" rule: dot_loop.induct)
  case (1 P q v i)
  show ?case
  proof (cases "i < length q")
    case True
    have "dot_loop P q v i NaN = dot_loop P q v (Suc i) NaN"
      using True by (subst dot_loop.simps) simp
    also have "\<dots> = NaN" using True "1" by simp
    finally show ?thesis .
  next
    case False
    then show ?thesis by (subst dot_loop.simps) simp
  qed
qed

lemma dot_loop_short:
  "length v < length q \<Longrightarrow> i \<le> length v \<Longrightarrow> dot_loop P q v i dot = NaN"
proof (induction P q v i dot rule: dot_loop.induct)
  case (1 P q v i dot)
  have iq: "i < length q" using "1.prems" by simp
  have step: "dot_loop P q v i dot =
                dot_loop P q v (Suc i) (js_add P dot (js_mul P (q ! i) (f32_get v i)))"
    using iq by (subst dot_loop.simps) simp
  show ?case
  proof (cases "i < length v")
    case True
    then have "Suc i \<le> length v" by simp
    then show ?thesis using step "1.IH"[OF iq "1.prems"(1)] by simp
  next
    case False
    then have "f32_get v i = NaN" by (simp add: f32_get_def)
    then show ?thesis using step by (simp add: js_mul_NaN_right js_add_NaN_right dot_loop_NaN)
  qed
qed

lemma dot_loop_take: "dot_loop P q (take (length q) v) i dot = dot_loop P q v i dot"
proof (induction P q v i dot rule: dot_loop.induct)
  case (1 P q v i dot)
  show ?case
  proof (cases "i < length q")
    case True
    have g: "f32_get (take (length q) v) i = f32_get v i"
      using True by (simp add: f32_get_def)
    have "dot_loop P q (take (length q) v) i dot =
            dot_loop P q (take (length q) v) (Suc i)
              (js_add P dot (js_mul P (q ! i) (f32_get v i)))"
      using True g by (subst dot_loop.simps) simp
    also have "\<dots> = dot_loop P q v (Suc i) (js_add P dot (js_mul P (q ! i) (f32_get v i)))"
      using "1.IH"[OF True] .
    also have "\<dots> = dot_loop P q v i dot"
      using True by (subst (2) dot_loop.simps) simp
    finally show ?thesis .
  next
    case False
    then show ?thesis by (subst (1 2) dot_loop.simps) simp
  qed
qed

lemma map_of_replace:
  "map_of (map (\<lambda>(k', v'). if k' = k then (k', v) else (k', v')) obj) x =
     (if x = k then (if k \<in> fst ` set obj then Some v else None) else map_of obj x)"
  by (induction obj) (force simp: image_iff split: if_splits)+

lemma map_of_obj_set: "map_of (obj_set obj (k, v)) = (map_of obj)(k \<mapsto> v)"
proof (cases "k \<in> fst ` set obj")
  case True
  then show ?thesis by (auto simp: obj_set_def map_of_replace fun_eq_iff)
next
  case False
  then have "map_of obj k = None" by (simp add: map_of_eq_None_iff)
  with False show ?thesis by (auto simp: obj_set_def map_add_def fun_eq_iff split: option.splits)
qed

lemma map_of_obj_spread:
  "k \<notin> fst ` set rest \<Longrightarrow> map_of (obj_spread obj rest) k = map_of obj k"
  unfolding obj_spread_def
proof (induction rest arbitrary: obj)
  case Nil
  then show ?case by simp
next
  case (Cons kv rest)
  obtain k' v' where kv: "kv = (k', v')" by (cases kv)
  with Cons.prems have "k' \<noteq> k" "k \<notin> fst ` set rest" by auto
  with Cons.IH[of "obj_set obj kv"] kv show ?case by (simp add: map_of_obj_set)
qed

lemma rest_of_keys: "fst ` set (rest_of kvs) \<subseteq> fst ` set kvs"
  by (auto simp: rest_of_def)

lemma score_entry_score:
  assumes "''score'' \<notin> fst ` set (e_rest e)"
  shows "obj_get (score_entry P q qNorm e) ''score'' = JNum (cosine P q qNorm e)"
proof -
  have "''score'' \<notin> fst ` set (rest_of (e_rest e))" using assms rest_of_keys by blast
  then show ?thesis
    by (simp add: obj_get_def score_entry_def map_of_obj_spread)
qed

lemma search_returns:
  "float32_from P queryVec = Inr q \<Longrightarrow>
   search P docs queryVec k =
     Inr (array_slice (array_sort (score_cmp P) (map (score_entry P q (math_hypot P q)) docs)) 0 k)"
  by (simp add: search_def)

lemma length_insert_by: "length (insert_by cmp x ys) = Suc (length ys)"
  by (induction ys) simp_all

lemma length_array_sort: "length (array_sort cmp xs) = length xs"
  unfolding array_sort_def by (induction xs) (simp_all add: length_insert_by)

lemma mset_insert_by: "mset (insert_by cmp x ys) = add_mset x (mset ys)"
  by (induction ys) simp_all

lemma mset_array_sort: "mset (array_sort cmp xs) = mset xs"
  unfolding array_sort_def by (induction xs) (simp_all add: mset_insert_by)

lemma array_slice_all: "array_slice xs 0 (int (length xs)) = xs"
  by (simp add: array_slice_def)

lemma search_full:
  assumes "float32_from P queryVec = Inr q"
  shows "\<exists>all. search P docs queryVec (int (length docs)) = Inr all
           \<and> search P docs queryVec k = Inr (array_slice all 0 k)
           \<and> mset all = mset (map (score_entry P q (math_hypot P q)) docs)"
proof -
  let ?all = "array_sort (score_cmp P) (map (score_entry P q (math_hypot P q)) docs)"
  have len: "length ?all = length docs" by (simp add: length_array_sort)
  have "array_slice ?all 0 (int (length docs)) = ?all"
    using array_slice_all[of ?all] len by simp
  then have "search P docs queryVec (int (length docs)) = Inr ?all"
    using search_returns[OF assms] by simp
  moreover have "search P docs queryVec k = Inr (array_slice ?all 0 k)"
    using search_returns[OF assms] by simp
  moreover have "mset ?all = mset (map (score_entry P q (math_hypot P q)) docs)"
    by (rule mset_array_sort)
  ultimately show ?thesis by blast
qed





text \<open>
  C10, as the code has it. \<open>search\<close> compares no lengths: whatever the stored vectors, it
  returns one result object per entry (\<open>all\<close>, and its slice for any \<open>k\<close>). The score written
  in the result object of an entry is computed from the first \<open>length q\<close> components of its
  vector, its cached norm and the query, so the components beyond the query's length
  reach the score only through the cached norm. For an entry whose vector is shorter than
  the query the result object in \<open>all\<close> is \<^verbatim>\<open>{ id, score: NaN, ...rest }\<close>, and NaN is the
  score returned unless the entry has a property named \<^verbatim>\<open>score\<close> of its own.
\<close>

theorem search_scores_short_vectors:
  assumes "float32_from P queryVec = Inr q"
  shows "\<exists>all. search P docs queryVec (int (length docs)) = Inr all
           \<and> search P docs queryVec k = Inr (array_slice all 0 k)
           \<and> mset all = mset (map (score_entry P q (math_hypot P q)) docs)
           \<and> (\<forall>e\<in>set docs.
                 score_entry P q (math_hypot P q) e =
                   obj_spread
                     [(''id'', e_id e),
                      (''score'',
                       JNum (js_div P (dot_loop P q (take (length q) (e_vector e)) 0 (Fin 0))
                                      (js_mul P (to_number P (e_norm e)) (math_hypot P q))))]
                     (rest_of (e_rest e)))
           \<and> (\<forall>e\<in>set docs.
                 length (e_vector e) < length q \<longrightarrow>
                 score_entry P q (math_hypot P q) e =
                   obj_spread [(''id'', e_id e), (''score'', JNum NaN)] (rest_of (e_rest e))
                 \<and> obj_spread [(''id'', e_id e), (''score'', JNum NaN)] (rest_of (e_rest e))
                     \<in> set all
                 \<and> (''score'' \<notin> fst ` set (e_rest e) \<longrightarrow>
                      obj_get (score_entry P q (math_hypot P q) e) ''score'' = JNum NaN))"
proof -
  let ?n = "math_hypot P q"
  obtain all where all: "search P docs queryVec (int (length docs)) = Inr all"
      "search P docs queryVec k = Inr (array_slice all 0 k)"
      "mset all = mset (map (score_entry P q ?n) docs)"
    using search_full[OF assms] by blast
  have setall: "set all = score_entry P q ?n ` set docs"
    using mset_eq_setD[OF all(3)] by simp
  have cut: "\<forall>e\<in>set docs.
                 score_entry P q ?n e =
                   obj_spread
                     [(''id'', e_id e),
                      (''score'',
                       JNum (js_div P (dot_loop P q (take (length q) (e_vector e)) 0 (Fin 0))
                                      (js_mul P (to_number P (e_norm e)) ?n)))]
                     (rest_of (e_rest e))"
    by (simp add: score_entry_def cosine_def dot_loop_take)
  have short: "score_entry P q ?n e =
                   obj_spread [(''id'', e_id e), (''score'', JNum NaN)] (rest_of (e_rest e))
                 \<and> obj_spread [(''id'', e_id e), (''score'', JNum NaN)] (rest_of (e_rest e))
                     \<in> set all
                 \<and> (''score'' \<notin> fst ` set (e_rest e) \<longrightarrow>
                      obj_get (score_entry P q ?n e) ''score'' = JNum NaN)"
    if e: "e \<in> set docs" and l: "length (e_vector e) < length q" for e
  proof -
    have "dot_loop P q (e_vector e) 0 (Fin 0) = NaN" using l by (simp add: dot_loop_short)
    then have c: "cosine P q ?n e = NaN" by (simp add: cosine_def)
    then have eq: "score_entry P q ?n e =
                   obj_spread [(''id'', e_id e), (''score'', JNum NaN)] (rest_of (e_rest e))"
      by (simp add: score_entry_def)
    have "score_entry P q ?n e \<in> set all" using e setall by blast
    then have mem: "obj_spread [(''id'', e_id e), (''score'', JNum NaN)] (rest_of (e_rest e))
                     \<in> set all"
      using eq by simp
    have "obj_get (score_entry P q ?n e) ''score'' = JNum NaN"
      if "''score'' \<notin> fst ` set (e_rest e)"
      using score_entry_score[OF that, of P q ?n] c by simp
    with eq mem show ?thesis by blast
  qed
  from all cut short show ?thesis by blast
qed

theorem search_scores_short_vectors_witness:
  "\<exists>all. search exact_platform
       [\<lparr>e_id = JStr ''s'', e_vector = [Fin 1], e_norm = JNum (Fin 1),
          e_rest = [(''header'', JStr ''S'')]\<rparr>]
       (JArr [JNum (Fin 1), JNum (Fin 0)]) 1 = Inr all
     \<and> [(''id'', JStr ''s''), (''score'', JNum NaN), (''header'', JStr ''S'')] \<in> set all"
  (is "\<exists>all. search _ [?s] ?Q 1 = _ \<and> _")
proof -
  have h: "float32_from exact_platform ?Q = Inr [Fin 1, Fin 0]"
    by (simp add: exact_platform_def)
  obtain all where all: "search exact_platform [?s] ?Q (int (length [?s])) = Inr all"
    and short: "\<forall>e\<in>set [?s].
                 length (e_vector e) < length [Fin 1, Fin 0 :: jsnum] \<longrightarrow>
                 score_entry exact_platform [Fin 1, Fin 0]
                     (math_hypot exact_platform [Fin 1, Fin 0]) e =
                   obj_spread [(''id'', e_id e), (''score'', JNum NaN)] (rest_of (e_rest e))
                 \<and> obj_spread [(''id'', e_id e), (''score'', JNum NaN)] (rest_of (e_rest e))
                     \<in> set all
                 \<and> (''score'' \<notin> fst ` set (e_rest e) \<longrightarrow>
                      obj_get (score_entry exact_platform [Fin 1, Fin 0]
                                 (math_hypot exact_platform [Fin 1, Fin 0]) e) ''score''
                        = JNum NaN)"
    using search_scores_short_vectors[OF h, of "[?s]" 1] by blast
  have sin: "?s \<in> set [?s]" by simp
  have len: "length (e_vector ?s) < length [Fin 1, Fin 0 :: jsnum]" by simp
  have "obj_spread [(''id'', e_id ?s), (''score'', JNum NaN)] (rest_of (e_rest ?s)) \<in> set all"
    using bspec[OF short sin] len by blast
  then have "[(''id'', JStr ''s''), (''score'', JNum NaN), (''header'', JStr ''S'')] \<in> set all"
    by (simp add: obj_spread_def obj_set_def rest_of_def)
  then show ?thesis using all by auto
qed

text \<open>
  C10 as stated fails twice. An entry loaded with a property named \<^verbatim>\<open>score\<close>, whose vector
  is shorter than the query, is returned with that property as its score, not NaN. And
  the components beyond the query's length do affect the score of an entry stored by
  \<open>add\<close>, through the norm cached from all components: against the query \<open>[1]\<close> the vector
  \<open>[1, 1, 1, 1]\<close> scores 1/2 and the vector \<open>[1]\<close> scores 1.
\<close>

theorem score_depends_on_metadata_and_cached_norm:
  "loadDocs exact_platform
     (JArr [JObj [(''id'', JStr ''a''), (''vector'', JArr [JNum (Fin 1)]), (''norm'', JNum (Fin 1)),
                  (''score'', JNum (Fin 1))]]) [] =
     Inr [\<lparr>e_id = JStr ''a'', e_vector = [Fin 1], e_norm = JNum (Fin 1),
            e_rest = [(''score'', JNum (Fin 1))]\<rparr>]
   \<and> search exact_platform
       [\<lparr>e_id = JStr ''a'', e_vector = [Fin 1], e_norm = JNum (Fin 1),
          e_rest = [(''score'', JNum (Fin 1))]\<rparr>]
       (JArr [JNum (Fin 1), JNum (Fin 1)]) 10 =
     Inr [[(''id'', JStr ''a''), (''score'', JNum (Fin 1))]]
   \<and> add exact_platform (JStr ''b'') (JArr [JNum (Fin 1), JNum (Fin 1), JNum (Fin 1), JNum (Fin 1)]) [] =
     Inr [\<lparr>e_id = JStr ''b'', e_vector = [Fin 1, Fin 1, Fin 1, Fin 1], e_norm = JNum (Fin 2),
            e_rest = []\<rparr>]
   \<and> search exact_platform
       [\<lparr>e_id = JStr ''b'', e_vector = [Fin 1, Fin 1, Fin 1, Fin 1], e_norm = JNum (Fin 2),
          e_rest = []\<rparr>]
       (JArr [JNum (Fin 1)]) 10 =
     Inr [[(''id'', JStr ''b''), (''score'', JNum (Fin (1 / 2)))]]
   \<and> add exact_platform (JStr ''b'') (JArr [JNum (Fin 1)]) [] =
     Inr [\<lparr>e_id = JStr ''b'', e_vector = [Fin 1], e_norm = JNum (Fin 1), e_rest = []\<rparr>]
   \<and> search exact_platform
       [\<lparr>e_id = JStr ''b'', e_vector = [Fin 1], e_norm = JNum (Fin 1), e_rest = []\<rparr>]
       (JArr [JNum (Fin 1)]) 10 =
     Inr [[(''id'', JStr ''b''), (''score'', JNum (Fin 1))]]"
  by (simp add: add_def search_def obj_get_def exact_platform_def score_entry_def cosine_def
      math_hypot_def dot_loop.simps f32_get_def obj_spread_def obj_set_def rest_of_def
      array_sort_def array_slice_def Let_def)

text \<open>
  C4, as the code has it. \<open>search\<close> with \<open>k = 0\<close> returns the empty array. With a negative
  \<open>k\<close> it returns the whole ordering (what \<open>k = length docs\<close> returns) without its last
  \<open>- k\<close> results, which is empty only when the index holds at most \<open>- k\<close> entries.
\<close>

theorem search_nonpositive_k:
  assumes "float32_from P queryVec = Inr q"
  shows "search P docs queryVec 0 = Inr []
         \<and> (k < 0 \<longrightarrow>
              (\<exists>rs. search P docs queryVec (int (length docs)) = Inr rs
                 \<and> length rs = length docs
                 \<and> search P docs queryVec k = Inr (take (length docs - nat (- k)) rs)))"
proof (intro conjI impI)
  show "search P docs queryVec 0 = Inr []"
    using search_returns[OF assms] by (simp add: array_slice_def)
next
  assume k: "k < 0"
  let ?rs = "array_sort (score_cmp P) (map (score_entry P q (math_hypot P q)) docs)"
  have len: "length ?rs = length docs" by (simp add: length_array_sort)
  have all: "search P docs queryVec (int (length docs)) = Inr ?rs"
    using search_returns[OF assms] len by (simp add: array_slice_def)
  have "nat (max (int (length docs) + k) 0) = length docs - nat (- k)" using k by linarith
  then have neg: "search P docs queryVec k = Inr (take (length docs - nat (- k)) ?rs)"
    using search_returns[OF assms] len k by (simp add: array_slice_def)
  from all len neg
  show "\<exists>rs. search P docs queryVec (int (length docs)) = Inr rs
                 \<and> length rs = length docs
                 \<and> search P docs queryVec k = Inr (take (length docs - nat (- k)) rs)"
    by blast
qed

theorem search_nonpositive_k_witness:
  "search exact_platform
       [\<lparr>e_id = JStr ''a'', e_vector = [Fin 1], e_norm = JNum (Fin 1), e_rest = []\<rparr>]
       (JArr [JNum (Fin 1)]) 0 = Inr []"
proof -
  have h: "float32_from exact_platform (JArr [JNum (Fin 1)]) = Inr [Fin 1]"
    by (simp add: exact_platform_def)
  show ?thesis using search_nonpositive_k[OF h] by simp
qed

text \<open>
  C4 as stated fails: with two entries and \<open>k = -1\<close> the result holds one entry.
\<close>

theorem search_negative_k_returns_entries:
  "search exact_platform
       [\<lparr>e_id = JStr ''a'', e_vector = [Fin 1], e_norm = JNum (Fin 1), e_rest = []\<rparr>,
        \<lparr>e_id = JStr ''b'', e_vector = [Fin 0], e_norm = JNum (Fin 1), e_rest = []\<rparr>]
       (JArr [JNum (Fin 1)]) (- 1) =
     Inr [[(''id'', JStr ''a''), (''score'', JNum (Fin 1))]]"
  by (simp add: search_def math_hypot_def exact_platform_def score_entry_def cosine_def
      dot_loop.simps f32_get_def obj_spread_def rest_of_def array_sort_def array_slice_def score_cmp_def
      score_of_def obj_get_def js_sub_def)

subsection \<open>textSearch\<close>

lemma text_scan_find:
  "text_scan (toLowerCase (trim text)) attr docs = find (attr_matches text attr) docs"
  by (induction docs) (auto simp: attr_matches_def same_text_def split: jsval.splits)

lemma textSearch_find:
  "textSearch (JStr text) (Some attr) docs = find (attr_matches text attr) docs"
  by (simp add: textSearch_def text_scan_find)

text \<open>
  C9. For every index, every string \<open>text\<close> and every attribute name, \<open>textSearch\<close> returns
  \<^verbatim>\<open>null\<close> exactly when no entry matches, and otherwise the first entry, in insertion
  order, whose attribute is a string equal to \<open>text\<close> up to letter case and surrounding
  white space. The omitted attribute is \<^verbatim>\<open>header\<close>. The function has no error result: it
  raises nothing.
\<close>

theorem textSearch_first_match:
  "(textSearch (JStr text) (Some attr) docs = None
      \<longleftrightarrow> (\<forall>e\<in>set docs. \<not> attr_matches text attr e))
   \<and> (textSearch (JStr text) (Some attr) docs = Some d
      \<longleftrightarrow> (\<exists>i<length docs. docs ! i = d \<and> attr_matches text attr d
             \<and> (\<forall>j<i. \<not> attr_matches text attr (docs ! j))))
   \<and> textSearch (JStr text) None docs = textSearch (JStr text) (Some ''header'') docs"
proof (intro conjI)
  show "textSearch (JStr text) (Some attr) docs = None
      \<longleftrightarrow> (\<forall>e\<in>set docs. \<not> attr_matches text attr e)"
    by (auto simp: textSearch_find find_None_iff)
next
  show "textSearch (JStr text) (Some attr) docs = Some d
      \<longleftrightarrow> (\<exists>i<length docs. docs ! i = d \<and> attr_matches text attr d
             \<and> (\<forall>j<i. \<not> attr_matches text attr (docs ! j)))"
    unfolding textSearch_find find_Some_iff by auto
next
  show "textSearch (JStr text) None docs = textSearch (JStr text) (Some ''header'') docs"
    by (simp add: textSearch_def)
qed

theorem textSearch_first_match_witness:
  "textSearch (JStr '' intro'') None
     [\<lparr>e_id = JStr ''1'', e_vector = [], e_norm = JNum (Fin 0), e_rest = [(''header'', JStr ''Finance'')]\<rparr>,
      \<lparr>e_id = JStr ''2'', e_vector = [], e_norm = JNum (Fin 0), e_rest = [(''header'', JStr ''INTRO '')]\<rparr>,
      \<lparr>e_id = JStr ''3'', e_vector = [], e_norm = JNum (Fin 0), e_rest = [(''header'', JStr ''intro'')]\<rparr>]
   = Some \<lparr>e_id = JStr ''2'', e_vector = [], e_norm = JNum (Fin 0), e_rest = [(''header'', JStr ''INTRO '')]\<rparr>"
  (is "textSearch ?t None [?e1, ?e2, ?e3] = Some ?e2")
proof -
  have a: "attr_matches '' intro'' ''header'' ?e2" by code_simp
  have b: "\<not> attr_matches '' intro'' ''header'' ?e1" by code_simp
  have "\<exists>i<length [?e1, ?e2, ?e3]. [?e1, ?e2, ?e3] ! i = ?e2
          \<and> attr_matches '' intro'' ''header'' ?e2
          \<and> (\<forall>j<i. \<not> attr_matches '' intro'' ''header'' ([?e1, ?e2, ?e3] ! j))"
    using a b by (intro exI[of _ 1]) simp
  then show ?thesis
    using textSearch_first_match[of "'' intro''" "''header''" "[?e1, ?e2, ?e3]" ?e2]
    by simp
qed

subsection \<open>The order of the results\<close>

lemma desc_key_le: "x \<noteq> NaN \<Longrightarrow> y \<noteq> NaN \<Longrightarrow> (desc_key x \<le> desc_key y) = js_ge x y"
  by (cases x; cases y) simp_all

lemma desc_key_eq: "(desc_key x = desc_key y) = (x = y)"
  by (cases x; cases y) simp_all

lemma comparator_sign:
  assumes "rounding_keeps_sign P ss" and "x \<in> set ss" and "y \<in> set ss"
      and "x \<noteq> NaN" and "y \<noteq> NaN"
  shows "is_pos (js_sub P y x) = (\<not> js_ge x y)"
proof (cases x)
  case (Fin a)
  note x = this
  show ?thesis
  proof (cases y)
    case (Fin b)
    show ?thesis
    proof (cases "a = b")
      case True
      with x Fin show ?thesis by (simp add: js_sub_def)
    next
      case False
      then have "is_pos (rnd P (b - a)) = (a < b)"
        using assms(1-3) x Fin unfolding rounding_keeps_sign_def by blast
      with False x Fin show ?thesis by (auto simp: js_sub_def)
    qed
  qed (use x assms in \<open>simp_all add: js_sub_def\<close>)
qed (cases y; use assms in \<open>simp add: js_sub_def\<close>)+

lemma insert_by_insort_key:
  assumes "\<forall>y\<in>set ys. is_pos (cmp x y) = (\<not> key x \<le> key y)"
  shows "insert_by cmp x ys = insort_key key x ys"
  using assms by (induction ys) auto

lemma array_sort_sort_key:
  assumes "\<forall>x\<in>set xs. \<forall>y\<in>set xs. is_pos (cmp x y) = (\<not> key x \<le> key y)"
  shows "array_sort cmp xs = sort_key key xs"
  using assms
proof (induction xs)
  case Nil
  then show ?case by (simp add: array_sort_def)
next
  case (Cons x xs)
  then have ih: "array_sort cmp xs = sort_key key xs" by simp
  have "array_sort cmp (x # xs) = insert_by cmp x (sort_key key xs)"
    using ih by (simp add: array_sort_def)
  also have "\<dots> = insort_key key x (sort_key key xs)"
    using Cons.prems by (intro insert_by_insort_key) simp
  finally show ?case by simp
qed


lemma score_of_score_entry:
  "''score'' \<notin> fst ` set (e_rest e) \<Longrightarrow> score_of P (score_entry P q qNorm e) = cosine P q qNorm e"
  by (simp add: score_of_def score_entry_score)

lemma array_slice_take: "0 \<le> k \<Longrightarrow> array_slice xs 0 k = take (nat k) xs"
  by (auto simp: array_slice_def min_def Let_def)

text \<open>
  C1, where the comparator is consistent. Let no stored entry have a property named
  \<^verbatim>\<open>score\<close> besides \<^verbatim>\<open>id\<close>, \<^verbatim>\<open>vector\<close> and \<^verbatim>\<open>norm\<close>, let no entry's score be NaN, let
  subtraction keep the sign on the scores, and let \<open>k\<close> be at least 0. Then the result is
  the first \<open>k\<close> elements of a list \<open>rs\<close> that holds exactly the scored entries, whose
  scores are the cosine values \<^verbatim>\<open>dot / (norm * qNorm)\<close>, in descending order of score, the
  entries of equal score in their insertion order; when the index holds at most \<open>k\<close>
  entries the result is all of \<open>rs\<close>.
\<close>

theorem search_sorted_stable_truncated:
  assumes q: "float32_from P queryVec = Inr q"
      and nometa: "\<forall>e\<in>set docs. ''score'' \<notin> fst ` set (e_rest e)"
      and nonan: "\<forall>e\<in>set docs. cosine P q (math_hypot P q) e \<noteq> NaN"
      and sign: "rounding_keeps_sign P (map (cosine P q (math_hypot P q)) docs)"
      and k: "0 \<le> k"
  shows "\<exists>rs. search P docs queryVec k = Inr (take (nat k) rs)
           \<and> mset rs = mset (map (score_entry P q (math_hypot P q)) docs)
           \<and> map (score_of P) (map (score_entry P q (math_hypot P q)) docs)
               = map (cosine P q (math_hypot P q)) docs
           \<and> sorted_wrt (\<lambda>a b. js_ge (score_of P a) (score_of P b)) rs
           \<and> (\<forall>s. filter (\<lambda>r. score_of P r = s) rs
                  = filter (\<lambda>r. score_of P r = s) (map (score_entry P q (math_hypot P q)) docs))
           \<and> (int (length docs) \<le> k \<longrightarrow> take (nat k) rs = rs)"
proof -
  let ?n = "math_hypot P q"
  let ?xs = "map (score_entry P q ?n) docs"
  let ?key = "\<lambda>r. desc_key (score_of P r)"
  let ?rs = "array_sort (score_cmp P) ?xs"
  have sc: "score_of P (score_entry P q ?n e) = cosine P q ?n e" if "e \<in> set docs" for e
    using that nometa by (simp add: score_of_score_entry)
  then have scores: "map (score_of P) ?xs = map (cosine P q ?n) docs" by simp
  have in_ss: "score_of P r \<in> set (map (cosine P q ?n) docs) \<and> score_of P r \<noteq> NaN"
    if "r \<in> set ?xs" for r
    using that sc nonan by auto
  have cmp: "\<forall>x\<in>set ?xs. \<forall>y\<in>set ?xs. is_pos (score_cmp P x y) = (\<not> ?key x \<le> ?key y)"
  proof (intro ballI)
    fix x y assume x: "x \<in> set ?xs" and y: "y \<in> set ?xs"
    have "is_pos (js_sub P (score_of P y) (score_of P x))
            = (\<not> js_ge (score_of P x) (score_of P y))"
      using comparator_sign[OF sign] in_ss[OF x] in_ss[OF y] by blast
    then show "is_pos (score_cmp P x y) = (\<not> ?key x \<le> ?key y)"
      using in_ss[OF x] in_ss[OF y] by (simp add: score_cmp_def desc_key_le)
  qed
  have rs: "?rs = sort_key ?key ?xs"
    using cmp by (rule array_sort_sort_key)
  have res: "search P docs queryVec k = Inr (take (nat k) ?rs)"
    using search_returns[OF q] k by (simp add: array_slice_take)
  have perm: "mset ?rs = mset ?xs" by (simp add: rs)
  have set_rs: "set ?rs = set ?xs" by (simp add: rs)
  have "sorted (map ?key ?rs)" unfolding rs by (rule sorted_sort_key)
  then have "sorted_wrt (\<lambda>a b. ?key a \<le> ?key b) ?rs" by (simp add: sorted_map)
  then have sorted: "sorted_wrt (\<lambda>a b. js_ge (score_of P a) (score_of P b)) ?rs"
  proof (rule sorted_wrt_mono_rel[rotated])
    fix a b assume "a \<in> set ?rs" "b \<in> set ?rs" "?key a \<le> ?key b"
    then show "js_ge (score_of P a) (score_of P b)"
      using in_ss set_rs desc_key_le by metis
  qed
  have stable: "filter (\<lambda>r. score_of P r = s) ?rs = filter (\<lambda>r. score_of P r = s) ?xs" for s
  proof -
    have "filter (\<lambda>r. score_of P r = s) ?rs = filter (\<lambda>r. ?key r = desc_key s) ?rs"
      by (simp add: desc_key_eq)
    also have "\<dots> = filter (\<lambda>r. ?key r = desc_key s) ?xs"
      unfolding rs by (rule sort_key_stable)
    also have "\<dots> = filter (\<lambda>r. score_of P r = s) ?xs"
      by (simp add: desc_key_eq)
    finally show ?thesis .
  qed
  have len: "length ?rs = length docs" by (simp add: rs)
  have all: "int (length docs) \<le> k \<longrightarrow> take (nat k) ?rs = ?rs" using len by simp
  from res perm scores sorted stable all show ?thesis by blast
qed


theorem search_sorted_stable_truncated_witness:
  "(\<exists>rs. search exact_platform
       [\<lparr>e_id = JStr ''a'', e_vector = [Fin 0, Fin 1], e_norm = JNum (Fin 1), e_rest = []\<rparr>,
        \<lparr>e_id = JStr ''b'', e_vector = [Fin 1, Fin 0], e_norm = JNum (Fin 1), e_rest = []\<rparr>,
        \<lparr>e_id = JStr ''c'', e_vector = [Fin 0, Fin 1], e_norm = JNum (Fin 1), e_rest = []\<rparr>,
        \<lparr>e_id = JStr ''d'', e_vector = [Fin 1, Fin 0], e_norm = JNum (Fin 1), e_rest = []\<rparr>]
       (JArr [JNum (Fin 1), JNum (Fin 0)]) 3 = Inr (take 3 rs)
      \<and> length rs = 4
      \<and> sorted_wrt (\<lambda>a b. js_ge (score_of exact_platform a) (score_of exact_platform b)) rs)
   \<and> search exact_platform
       [\<lparr>e_id = JStr ''a'', e_vector = [Fin 0, Fin 1], e_norm = JNum (Fin 1), e_rest = []\<rparr>,
        \<lparr>e_id = JStr ''b'', e_vector = [Fin 1, Fin 0], e_norm = JNum (Fin 1), e_rest = []\<rparr>,
        \<lparr>e_id = JStr ''c'', e_vector = [Fin 0, Fin 1], e_norm = JNum (Fin 1), e_rest = []\<rparr>,
        \<lparr>e_id = JStr ''d'', e_vector = [Fin 1, Fin 0], e_norm = JNum (Fin 1), e_rest = []\<rparr>]
       (JArr [JNum (Fin 1), JNum (Fin 0)]) 3 =
     Inr [[(''id'', JStr ''b''), (''score'', JNum (Fin 1))],
          [(''id'', JStr ''d''), (''score'', JNum (Fin 1))],
          [(''id'', JStr ''a''), (''score'', JNum (Fin 0))]]"
  (is "(\<exists>rs. search _ ?D ?Q 3 = _ \<and> _ \<and> _) \<and> _")
proof -
  let ?q = "[Fin 1, Fin 0]"
  have h: "float32_from exact_platform ?Q = Inr ?q"
    by (simp add: exact_platform_def)
  have hy: "math_hypot exact_platform ?q = Fin 1"
    by (simp add: math_hypot_def exact_platform_def)
  have c: "map (cosine exact_platform ?q (Fin 1)) ?D = [Fin 0, Fin 1, Fin 0, Fin 1]"
    by (simp add: cosine_def dot_loop.simps f32_get_def exact_platform_def)
  have nometa: "\<forall>e\<in>set ?D. ''score'' \<notin> fst ` set (e_rest e)" by simp
  have nonan: "\<forall>e\<in>set ?D. cosine exact_platform ?q (math_hypot exact_platform ?q) e \<noteq> NaN"
    unfolding hy by (simp add: cosine_def dot_loop.simps f32_get_def exact_platform_def)
  have sign: "rounding_keeps_sign exact_platform
                (map (cosine exact_platform ?q (math_hypot exact_platform ?q)) ?D)"
    unfolding hy c by (auto simp: rounding_keeps_sign_def exact_platform_def)
  have k: "(0::int) \<le> 3" by simp
  obtain rs where rs: "search exact_platform ?D ?Q 3 = Inr (take (nat 3) rs)"
      "mset rs = mset (map (score_entry exact_platform ?q (math_hypot exact_platform ?q)) ?D)"
      "sorted_wrt (\<lambda>a b. js_ge (score_of exact_platform a) (score_of exact_platform b)) rs"
    using search_sorted_stable_truncated[OF h nometa nonan sign k] by blast
  have "length rs = length (map (score_entry exact_platform ?q (math_hypot exact_platform ?q)) ?D)"
    using rs(2) by (rule mset_eq_length)
  then have len: "length rs = 4" by simp
  have ex: "\<exists>rs. search exact_platform ?D ?Q 3 = Inr (take 3 rs) \<and> length rs = 4
      \<and> sorted_wrt (\<lambda>a b. js_ge (score_of exact_platform a) (score_of exact_platform b)) rs"
    using rs(1,3) len by (intro exI[of _ rs]) simp
  have ev: "search exact_platform ?D ?Q 3 =
     Inr [[(''id'', JStr ''b''), (''score'', JNum (Fin 1))],
          [(''id'', JStr ''d''), (''score'', JNum (Fin 1))],
          [(''id'', JStr ''a''), (''score'', JNum (Fin 0))]]"
    by (simp add: search_def math_hypot_def exact_platform_def score_entry_def cosine_def
      dot_loop.simps f32_get_def obj_spread_def rest_of_def array_sort_def array_slice_def
      score_cmp_def score_of_def obj_get_def js_sub_def Let_def)
  show ?thesis by (rule conjI[OF ex ev])
qed

lemma sorted_wrt_related:
  assumes "sorted_wrt R rs" and "x \<in> set rs" and "y \<in> set rs" and "x \<noteq> y"
  shows "R x y \<or> R y x"
proof -
  obtain i j where i: "i < length rs" "rs ! i = x" and j: "j < length rs" "rs ! j = y"
    using assms(2,3) by (auto simp: in_set_conv_nth)
  have "i \<noteq> j" using i j assms(4) by auto
  then consider "i < j" | "j < i" by linarith
  then show ?thesis
  proof cases
    case 1
    then show ?thesis using assms(1) i j by (auto simp: sorted_wrt_iff_nth_less)
  next
    case 2
    then show ?thesis using assms(1) i j by (auto simp: sorted_wrt_iff_nth_less)
  qed
qed

lemma no_descending_order_with_NaN:
  "\<not> (\<exists>rs. mset rs = mset [[(''id'', JStr ''a''), (''score'', JNum (Fin 0))],
                              [(''id'', JStr ''z''), (''score'', JNum NaN)],
                              [(''id'', JStr ''b''), (''score'', JNum (Fin 1))]]
          \<and> sorted_wrt (\<lambda>a b. js_ge (score_of exact_platform a) (score_of exact_platform b)) rs)"
  (is "\<not> (\<exists>rs. mset rs = mset [?a, ?z, ?b] \<and> sorted_wrt ?R rs)")
proof
  assume "\<exists>rs. mset rs = mset [?a, ?z, ?b] \<and> sorted_wrt ?R rs"
  then obtain rs where m: "mset rs = mset [?a, ?z, ?b]" and s: "sorted_wrt ?R rs" by blast
  have "set rs = set [?a, ?z, ?b]" using m by (rule mset_eq_setD)
  then have a: "?a \<in> set rs" and z: "?z \<in> set rs" by simp_all
  have ne: "?a \<noteq> ?z" by simp
  have "?R ?a ?z \<or> ?R ?z ?a"
    using sorted_wrt_related[where R = ?R, OF s a z ne] .
  then show False by (simp add: score_of_def obj_get_def)
qed

text \<open>
  C1 as stated fails on an index that holds a zero vector: its score is NaN, the
  comparator returns NaN against it, and the entry with the greatest score comes last.
  Whatever order an engine gives these three results, it is not descending: NaN is
  neither above nor below another score.
\<close>

theorem search_misorders_when_a_score_is_NaN:
  "add exact_platform (JStr ''z'') (JArr [JNum (Fin 0), JNum (Fin 0)]) [] =
     Inr [\<lparr>e_id = JStr ''z'', e_vector = [Fin 0, Fin 0], e_norm = JNum (Fin 0), e_rest = []\<rparr>]
   \<and> search exact_platform
       [\<lparr>e_id = JStr ''a'', e_vector = [Fin 0, Fin 1], e_norm = JNum (Fin 1), e_rest = []\<rparr>,
        \<lparr>e_id = JStr ''z'', e_vector = [Fin 0, Fin 0], e_norm = JNum (Fin 0), e_rest = []\<rparr>,
        \<lparr>e_id = JStr ''b'', e_vector = [Fin 1, Fin 0], e_norm = JNum (Fin 1), e_rest = []\<rparr>]
       (JArr [JNum (Fin 1), JNum (Fin 0)]) 10 =
     Inr [[(''id'', JStr ''a''), (''score'', JNum (Fin 0))],
          [(''id'', JStr ''z''), (''score'', JNum NaN)],
          [(''id'', JStr ''b''), (''score'', JNum (Fin 1))]]
   \<and> \<not> sorted_wrt (\<lambda>a b. js_ge (score_of exact_platform a) (score_of exact_platform b))
         [[(''id'', JStr ''a''), (''score'', JNum (Fin 0))],
          [(''id'', JStr ''z''), (''score'', JNum NaN)],
          [(''id'', JStr ''b''), (''score'', JNum (Fin 1))]]
   \<and> \<not> (\<exists>rs. mset rs = mset [[(''id'', JStr ''a''), (''score'', JNum (Fin 0))],
                                   [(''id'', JStr ''z''), (''score'', JNum NaN)],
                                   [(''id'', JStr ''b''), (''score'', JNum (Fin 1))]]
            \<and> sorted_wrt (\<lambda>a b. js_ge (score_of exact_platform a) (score_of exact_platform b)) rs)"
proof -
  have "add exact_platform (JStr ''z'') (JArr [JNum (Fin 0), JNum (Fin 0)]) [] =
     Inr [\<lparr>e_id = JStr ''z'', e_vector = [Fin 0, Fin 0], e_norm = JNum (Fin 0), e_rest = []\<rparr>]
   \<and> search exact_platform
       [\<lparr>e_id = JStr ''a'', e_vector = [Fin 0, Fin 1], e_norm = JNum (Fin 1), e_rest = []\<rparr>,
        \<lparr>e_id = JStr ''z'', e_vector = [Fin 0, Fin 0], e_norm = JNum (Fin 0), e_rest = []\<rparr>,
        \<lparr>e_id = JStr ''b'', e_vector = [Fin 1, Fin 0], e_norm = JNum (Fin 1), e_rest = []\<rparr>]
       (JArr [JNum (Fin 1), JNum (Fin 0)]) 10 =
     Inr [[(''id'', JStr ''a''), (''score'', JNum (Fin 0))],
          [(''id'', JStr ''z''), (''score'', JNum NaN)],
          [(''id'', JStr ''b''), (''score'', JNum (Fin 1))]]
   \<and> \<not> sorted_wrt (\<lambda>a b. js_ge (score_of exact_platform a) (score_of exact_platform b))
         [[(''id'', JStr ''a''), (''score'', JNum (Fin 0))],
          [(''id'', JStr ''z''), (''score'', JNum NaN)],
          [(''id'', JStr ''b''), (''score'', JNum (Fin 1))]]"
  by (simp add: add_def search_def math_hypot_def exact_platform_def score_entry_def cosine_def
      dot_loop.simps f32_get_def obj_spread_def rest_of_def array_sort_def array_slice_def
      score_cmp_def score_of_def obj_get_def js_sub_def Let_def)
  then show ?thesis using no_descending_order_with_NaN by blast
qed

subsection \<open>The indexing loop\<close>

lemma get_prop_document: "is_document d \<Longrightarrow> get_prop d k = Inr (field d k)"
  by (cases d) (simp_all add: is_document_def field_def)

lemma map_texts_documents:
  "list_all is_document ds \<Longrightarrow> map_texts ds = Inr (map (\<lambda>d. field d ''text_block'') ds)"
  by (induction ds) (simp_all add: get_prop_document)

lemma add_vector:
  "is_vector v \<Longrightarrow> add P h v docs =
     Inr (docs @ [\<lparr>e_id = h, e_vector = the_vec P v,
                    e_norm = JNum (math_hypot P (the_vec P v)), e_rest = []\<rparr>])"
  using float32_from_vector[of v P] by (simp add: add_def)

declare add_loop.simps [simp del]

lemma add_loop_result:
  assumes "list_all is_document chunk" and "list_all is_vector vs"
      and "length vs = length chunk"
  shows "add_loop P chunk vs j docs =
           Inr (docs @ map2 (embedded_entry P) (drop j chunk) (drop j vs))"
proof (induction "length chunk - j" arbitrary: j docs rule: less_induct)
  case less
  show ?case
  proof (cases "j < length chunk")
    case False
    then show ?thesis by (subst add_loop.simps) simp
  next
    case True
    then have jv: "j < length vs" using assms(3) by simp
    have d: "is_document (chunk ! j)" using assms(1) True by (simp add: list_all_length)
    have v: "is_vector (vs ! j)" using assms(2) jv by (simp add: list_all_length)
    have "add_loop P chunk vs j docs =
            add_loop P chunk vs (Suc j) (docs @ [embedded_entry P (chunk ! j) (vs ! j)])"
      using True jv d v
      by (subst add_loop.simps)
         (simp add: get_prop_document arr_get_def add_vector embedded_entry_def)
    also have "\<dots> = Inr ((docs @ [embedded_entry P (chunk ! j) (vs ! j)])
                        @ map2 (embedded_entry P) (drop (Suc j) chunk) (drop (Suc j) vs))"
      using True by (intro less.hyps) simp
    also have "\<dots> = Inr (docs @ map2 (embedded_entry P) (drop j chunk) (drop j vs))"
      using True jv by (simp add: Cons_nth_drop_Suc[symmetric])
    finally show ?thesis .
  qed
qed

lemma batch_step_result:
  assumes "list_all is_document chunk" and "embeds_each embedBatch"
  shows "batch_step P embedBatch chunk (docs, calls) =
           Inr (docs @ batch_entries P embedBatch chunk,
                calls @ [map (\<lambda>d. field d ''text_block'') chunk])"
proof -
  let ?texts = "map (\<lambda>d. field d ''text_block'') chunk"
  obtain vs where vs: "embedBatch ?texts = Inr vs" "length vs = length chunk"
      "list_all is_vector vs"
    using assms(2) unfolding embeds_each_def by (metis length_map)
  have "add_loop P chunk vs 0 docs = Inr (docs @ map2 (embedded_entry P) chunk vs)"
    using add_loop_result[OF assms(1) vs(3) vs(2), of P 0 docs] by simp
  then show ?thesis
    using vs(1) by (simp add: batch_step_def map_texts_documents[OF assms(1)] batch_entries_def)
qed

lemma array_slice_window:
  "i \<le> length xs \<Longrightarrow> array_slice xs (int i) (int i + int n) = take n (drop i xs)"
  by (auto simp: array_slice_def Let_def min_def nat_add_distrib)

lemma index_loop_result:
  assumes "0 < B" and "list_all is_document docs" and "embeds_each embedBatch"
  shows "index_loop P embedBatch B docs i (idx, calls) =
           Some (Inr (idx @ concat (map (batch_entries P embedBatch) (chunks B (drop i docs))),
                      calls @ map (map (\<lambda>d. field d ''text_block'')) (chunks B (drop i docs))))"
proof (induction "length docs - i" arbitrary: i idx calls rule: less_induct)
  case less
  show ?case
  proof (cases "i < length docs")
    case False
    then show ?thesis by (subst index_loop.simps) (simp add: chunks.simps)
  next
    case True
    let ?c = "take B (drop i docs)"
    have c: "array_slice docs (int i) (int i + int B) = ?c"
      using True by (simp add: array_slice_window)
    have cd: "list_all is_document ?c"
      using assms(2) by (auto simp: list_all_iff dest: in_set_takeD in_set_dropD)
    have ch: "chunks B (drop i docs) = ?c # chunks B (drop (i + B) docs)"
      using True assms(1) by (subst chunks.simps) (simp add: add.commute)
    have "index_loop P embedBatch B docs i (idx, calls) =
            index_loop P embedBatch B docs (i + B)
              (idx @ batch_entries P embedBatch ?c,
               calls @ [map (\<lambda>d. field d ''text_block'') ?c])"
      using True c batch_step_result[OF cd assms(3), of P idx calls]
      by (subst index_loop.simps) simp
    also have "\<dots> = Some (Inr ((idx @ batch_entries P embedBatch ?c)
                    @ concat (map (batch_entries P embedBatch) (chunks B (drop (i + B) docs))),
                 (calls @ [map (\<lambda>d. field d ''text_block'') ?c])
                    @ map (map (\<lambda>d. field d ''text_block'')) (chunks B (drop (i + B) docs))))"
      using True assms(1) by (intro less.hyps) simp
    finally show ?thesis by (simp add: ch)
  qed
qed

lemma concat_chunks: "0 < n \<Longrightarrow> concat (chunks n xs) = xs"
proof (induction "length xs" arbitrary: xs rule: less_induct)
  case less
  show ?case
  proof (cases "xs = []")
    case True
    then show ?thesis by (simp add: chunks.simps)
  next
    case False
    then have "length (drop n xs) < length xs" using less.prems by simp
    then have "concat (chunks n (drop n xs)) = drop n xs" using less by blast
    then show ?thesis using False less.prems by (subst chunks.simps) simp
  qed
qed

lemma batch_entries_ids:
  assumes "embeds_each embedBatch"
  shows "map e_id (batch_entries P embedBatch c) = map (\<lambda>d. field d ''header'') c"
proof -
  obtain vs where vs: "embedBatch (map (\<lambda>d. field d ''text_block'') c) = Inr vs"
      "length vs = length c"
    using assms unfolding embeds_each_def by (metis length_map)
  have "map e_id (map2 (embedded_entry P) c vs) = map (\<lambda>d. field d ''header'') c"
    using vs(2) by (induction c vs rule: list_induct2') (simp_all add: embedded_entry_def)
  then show ?thesis using vs(1) by (simp add: batch_entries_def)
qed

lemma batch_entries_rest: "list_all (\<lambda>e. e_rest e = []) (batch_entries P embedBatch c)"
  by (auto simp: batch_entries_def list_all_iff embedded_entry_def set_zip split: sum.splits)

lemma indexed_ids:
  assumes "0 < B" and "embeds_each embedBatch"
  shows "map e_id (concat (map (batch_entries P embedBatch) (chunks B docs)))
           = map (\<lambda>d. field d ''header'') docs"
proof -
  have "map e_id (concat (map (batch_entries P embedBatch) (chunks B docs)))
          = concat (map (map (\<lambda>d. field d ''header'')) (chunks B docs))"
    by (simp add: map_concat batch_entries_ids[OF assms(2)] comp_def)
  also have "\<dots> = map (\<lambda>d. field d ''header'') (concat (chunks B docs))"
    by (simp add: map_concat)
  finally show ?thesis using assms(1) by (simp add: concat_chunks)
qed


lemma index_loop_from_start:
  assumes "0 < B" and "list_all is_document docs" and "embeds_each embedBatch"
  shows "index_loop P embedBatch B docs 0 ([], []) =
           Some (Inr (concat (map (batch_entries P embedBatch) (chunks B docs)),
                      map (map (\<lambda>d. field d ''text_block'')) (chunks B docs)))"
  using index_loop_result[OF assms, of P 0 "[]" "[]"] by simp

lemma embeds_each_unit_embedder: "embeds_each unit_embedder"
  by (simp add: embeds_each_def unit_embedder_def list_all_iff)

text \<open>
  C3. For every batch size of at least 1, every list of documents and every embedder that
  returns one vector per text, the indexing loop ends, raises nothing and leaves an index
  of exactly as many entries as there are documents, whose ids are the documents'
  \<^verbatim>\<open>header\<close> values in the order of the input. That is also the result of the main
  function's branch when the list is not empty and its first document has no truthy
  \<^verbatim>\<open>vector\<close>.
\<close>

theorem index_loop_preserves_order:
  assumes "0 < B" and "list_all is_document docs" and "embeds_each embedBatch"
  shows "\<exists>idx calls. index_loop P embedBatch B docs 0 ([], []) = Some (Inr (idx, calls))
           \<and> length idx = length docs
           \<and> map e_id idx = map (\<lambda>d. field d ''header'') docs
           \<and> (docs \<noteq> [] \<and> \<not> truthy (field (docs ! 0) ''vector'') \<longrightarrow>
                build_index P embedBatch B docs = Some (Inr (idx, calls)))"
proof -
  let ?idx = "concat (map (batch_entries P embedBatch) (chunks B docs))"
  let ?calls = "map (map (\<lambda>d. field d ''text_block'')) (chunks B docs)"
  have run: "index_loop P embedBatch B docs 0 ([], []) = Some (Inr (?idx, ?calls))"
    using assms by (rule index_loop_from_start)
  have ids: "map e_id ?idx = map (\<lambda>d. field d ''header'') docs"
    using assms(1,3) by (rule indexed_ids)
  then have len: "length ?idx = length docs" by (metis length_map)
  have main: "build_index P embedBatch B docs = Some (Inr (?idx, ?calls))"
    if "docs \<noteq> []" and "\<not> truthy (field (docs ! 0) ''vector'')"
  proof -
    have "is_document (docs ! 0)" using that(1) assms(2) by (simp add: list_all_length)
    then have "get_prop (arr_get docs 0) ''vector'' = Inr (field (docs ! 0) ''vector'')"
      using that(1) by (simp add: arr_get_def get_prop_document)
    then show ?thesis using that(2) run by (simp add: build_index_def)
  qed
  from run len ids main show ?thesis by blast
qed

theorem index_loop_preserves_order_witness:
  "\<exists>idx calls.
     index_loop exact_platform unit_embedder 2
       [JObj [(''header'', JStr ''A''), (''text_block'', JStr ''cats'')],
        JObj [(''header'', JStr ''B''), (''text_block'', JStr ''dogs'')],
        JObj [(''header'', JStr ''C''), (''text_block'', JStr ''bonds'')]] 0 ([], [])
       = Some (Inr (idx, calls))
     \<and> length idx = 3
     \<and> map e_id idx = [JStr ''A'', JStr ''B'', JStr ''C'']"
proof -
  have B: "(0::nat) < 2" by simp
  have D: "list_all is_document
       [JObj [(''header'', JStr ''A''), (''text_block'', JStr ''cats'')],
        JObj [(''header'', JStr ''B''), (''text_block'', JStr ''dogs'')],
        JObj [(''header'', JStr ''C''), (''text_block'', JStr ''bonds'')]]"
    by (simp add: is_document_def)
  show ?thesis
    using index_loop_preserves_order[OF B D embeds_each_unit_embedder, of exact_platform]
    by (auto simp: field_def obj_get_def)
qed

text \<open>
  C8, as the code has it. Under the same conditions the loop calls the embedder once per
  batch, with the \<^verbatim>\<open>text_block\<close> values of the batch's documents (\<^verbatim>\<open>text_blocks\<close> is not
  read), and the index it leaves is, batch after batch, one entry per document: the id is
  the document's \<^verbatim>\<open>header\<close>, the vector is the embedder's vector at the document's
  position, the norm is its \<^verbatim>\<open>Math.hypot\<close>, and no other property of the document is
  stored.
\<close>

theorem index_loop_embeds_text_block_per_batch:
  assumes "0 < B" and "list_all is_document docs" and "embeds_each embedBatch"
  shows "index_loop P embedBatch B docs 0 ([], []) =
           Some (Inr (concat (map (batch_entries P embedBatch) (chunks B docs)),
                      map (map (\<lambda>d. field d ''text_block'')) (chunks B docs)))
         \<and> map e_id (concat (map (batch_entries P embedBatch) (chunks B docs)))
             = map (\<lambda>d. field d ''header'') docs
         \<and> list_all (\<lambda>e. e_rest e = [])
             (concat (map (batch_entries P embedBatch) (chunks B docs)))"
proof (intro conjI)
  show "index_loop P embedBatch B docs 0 ([], []) =
           Some (Inr (concat (map (batch_entries P embedBatch) (chunks B docs)),
                      map (map (\<lambda>d. field d ''text_block'')) (chunks B docs)))"
    using assms by (rule index_loop_from_start)
next
  show "map e_id (concat (map (batch_entries P embedBatch) (chunks B docs)))
             = map (\<lambda>d. field d ''header'') docs"
    using assms(1,3) by (rule indexed_ids)
next
  show "list_all (\<lambda>e. e_rest e = [])
             (concat (map (batch_entries P embedBatch) (chunks B docs)))"
    using batch_entries_rest[of P embedBatch] by (auto simp: list_all_iff)
qed

theorem index_loop_embeds_text_block_per_batch_witness:
  "index_loop exact_platform unit_embedder 2
       [JObj [(''header'', JStr ''A''), (''text_block'', JStr ''cats'')],
        JObj [(''header'', JStr ''B''), (''text_block'', JStr ''dogs'')],
        JObj [(''header'', JStr ''C''), (''text_block'', JStr ''bonds'')]] 0 ([], [])
     = Some (Inr ([\<lparr>e_id = JStr ''A'', e_vector = [Fin 1, Fin 0], e_norm = JNum (Fin 1), e_rest = []\<rparr>,
                   \<lparr>e_id = JStr ''B'', e_vector = [Fin 1, Fin 0], e_norm = JNum (Fin 1), e_rest = []\<rparr>,
                   \<lparr>e_id = JStr ''C'', e_vector = [Fin 1, Fin 0], e_norm = JNum (Fin 1), e_rest = []\<rparr>],
                  [[JStr ''cats'', JStr ''dogs''], [JStr ''bonds'']]))"
proof -
  have B: "(0::nat) < 2" by simp
  have D: "list_all is_document
       [JObj [(''header'', JStr ''A''), (''text_block'', JStr ''cats'')],
        JObj [(''header'', JStr ''B''), (''text_block'', JStr ''dogs'')],
        JObj [(''header'', JStr ''C''), (''text_block'', JStr ''bonds'')]]"
    by (simp add: is_document_def)
  show ?thesis
    using index_loop_embeds_text_block_per_batch[OF B D embeds_each_unit_embedder, of exact_platform]
    by (simp add: chunks.simps batch_entries_def unit_embedder_def embedded_entry_def field_def
          obj_get_def the_vec_def math_hypot_def exact_platform_def)
qed

text \<open>
  C8 as stated fails: for a document with \<^verbatim>\<open>text_blocks\<close> the loop passes \<^verbatim>\<open>undefined\<close> to
  the embedder where the claim has the concatenation, and the stored entry has none of
  the document's other properties.
\<close>

theorem index_loop_ignores_text_blocks_and_metadata:
  "index_loop exact_platform unit_embedder 32
       [JObj [(''header'', JStr ''A''), (''text_blocks'', JArr [JStr ''x'', JStr ''y'']),
              (''lang'', JStr ''en'')]] 0 ([], [])
     = Some (Inr ([\<lparr>e_id = JStr ''A'', e_vector = [Fin 1, Fin 0], e_norm = JNum (Fin 1), e_rest = []\<rparr>],
                  [[JUndefined]]))
   \<and> claimed_text (JObj [(''header'', JStr ''A''), (''text_blocks'', JArr [JStr ''x'', JStr ''y'']),
              (''lang'', JStr ''en'')]) = JStr ''xy''"
  (is "index_loop _ _ _ ?D 0 _ = Some (Inr ?st) \<and> _")
proof -
  have slice: "array_slice ?D 0 32 = ?D"
    by (simp add: array_slice_def)
  have step: "batch_step exact_platform unit_embedder ?D ([], []) = Inr ?st"
    by (simp add: batch_step_def add_loop.simps arr_get_def add_def unit_embedder_def
        obj_get_def math_hypot_def exact_platform_def)
  have last: "index_loop exact_platform unit_embedder 32 ?D 32 ?st = Some (Inr ?st)"
    by (subst index_loop.simps) simp
  have run: "index_loop exact_platform unit_embedder 32 ?D 0 ([], []) = Some (Inr ?st)"
    by (subst index_loop.simps) (simp add: slice step last)
  have ct: "claimed_text (hd ?D) = JStr ''xy''"
    by (simp add: claimed_text_def field_def obj_get_def)
  show ?thesis using run ct by simp
qed

end
